theory Spec2Isabelle
  imports Main "HOL-Library.Multiset"
begin

section \<open>Data model\<close>

text \<open>
  The backend keeps its state in relational tables reached through an object-relational
  mapper. A table is a list of rows in insertion order; an auto-increment primary key is a
  counter stored next to the table. Identifiers (\<open>INTEGER\<close> columns) and dates
  (milliseconds) are integers; text columns are strings.
\<close>

record user =
  uid :: int
  role :: string
  isActive :: bool

text \<open>
  Row of the \<open>comments\<close> table (model \<open>Comment\<close>). The primary key \<open>id\<close> is
  \<open>cid\<close>; \<open>createdAt\<close> is the timestamp the mapper adds (\<open>timestamps: true\<close>).
\<close>

record comment_row =
  cid :: int
  entityType :: string
  entityId :: int
  userId :: int
  comment :: string
  parentId :: "int option"
  createdAt :: int

text \<open>
  The JSON snapshots stored in the \<open>oldValue\<close> / \<open>newValue\<close> columns of a log row:
  the three shapes the comment controller builds.
\<close>

datatype snapshot =
    Linkage string int "int option"
  | Body string
  | Deleted int string int string nat

text \<open>
  Row of the \<open>logs\<close> table (model \<open>Log\<close>). The free-text description and the two
  request-metadata columns (\<open>ipAddress\<close>, \<open>userAgent\<close>) carry no logic and are left out.
\<close>

record log_row =
  log_id :: int
  action :: string
  log_entityType :: string
  log_entityId :: int
  oldValue :: "snapshot option"
  newValue :: "snapshot option"
  performedBy :: int
  timestamp :: int

text \<open>
  The store. \<open>projects\<close>, \<open>documents\<close>, \<open>tasks\<close> and \<open>meetings\<close> hold the primary
  keys of the rows of those tables. \<open>lookups\<close> is the journal of the
  \<open>Project/Document/Task/Meeting.findByPk\<close> queries issued so far.
\<close>

record db =
  users :: "user list"
  projects :: "int list"
  documents :: "int list"
  tasks :: "int list"
  meetings :: "int list"
  comments :: "comment_row list"
  nextCommentId :: int
  logs :: "log_row list"
  nextLogId :: int
  lookups :: "(string \<times> int) list"

text \<open>
  Rows of \<open>teams\<close>, \<open>team_members\<close> (unique on \<open>(teamId, userId)\<close>) and
  \<open>team_invitations\<close>, and the store of the team controller.
\<close>

datatype inv_status = pending | accepted | declined | cancelled

record team =
  team_id :: int
  managerId :: int

record team_member =
  tm_teamId :: int
  tm_userId :: int
  tm_role :: string

record invitation =
  inv_id :: int
  inv_teamId :: int
  inv_userId :: int
  invitedBy :: int
  inv_role :: string
  inv_status :: inv_status
  inv_message :: "string option"
  respondedAt :: "int option"

record team_db =
  team_users :: "user list"
  teams :: "team list"
  members :: "team_member list"
  invitations :: "invitation list"
  nextInvitationId :: int

subsection \<open>Responses\<close>

text \<open>
  Every handler answers \<open>res.status(n).json({success, message, data})\<close>. The message
  texts are fixed strings of the source; they are named here by one tag each, in the order
  of the handlers: \<open>FieldsRequired\<close> is the answer to a create without
  \<open>entityType\<close>, \<open>entityId\<close> or \<open>comment\<close> (the one with the field-by-field
  \<open>errors\<close>), \<open>EntityTypeInvalid\<close> the answer that lists the four kinds,
  \<open>ParentOtherEntity\<close> the answer to a reply whose parent is on another entity,
  \<open>AccountDisabled\<close> the answer of the middleware to a deactivated account,
  \<open>AlreadyPending\<close> and \<open>AlreadyMember\<close> the two refusals of an invite. The
  documentation of the API reads the status codes as: 400 invalid request, 401 not
  authenticated, 403 not authorised, 404 not found, 409 conflict, 500 server error.
\<close>

datatype msg =
    NoMessage
  | FieldsRequired
  | EntityTypeInvalid
  | EntityNotFound
  | ParentNotFound
  | ParentOtherEntity
  | CommentCreated
  | CreateError
  | CommentRequired
  | CommentNotFound
  | UpdateNotAllowed
  | CommentUpdated
  | UpdateError
  | DeleteNotAllowed
  | CommentDeleted
  | TokenMissing
  | UserNotFound
  | AccountDisabled
  | TokenExpired
  | TokenInvalid
  | AuthError
  | TeamNotFoundOrNotManager
  | NeedTeamFirst
  | TargetUserNotFound
  | OnlyConsultants
  | AlreadyMember
  | AlreadyPending
  | InvitationSent
  | ResponseInvalid
  | InvitationNotFound
  | RespondError
  | JoinedTeam
  | InvitationDeclined
  | NoTeamsFound
  | InvitationCancelled
  | TeamNotFound
  | MemberNotFound
  | MemberRemoved

record thread =
  root :: comment_row
  replies :: "comment_row list"

datatype payload =
    NoData
  | OneComment "comment_row option"
  | OneInvitation "invitation option"
  | Listing "thread list" nat nat

record response =
  status :: nat
  success :: bool
  message :: msg
  data :: payload

definition reply :: "nat \<Rightarrow> msg \<Rightarrow> response" where
  "reply n m = \<lparr>status = n, success = (n < 400), message = m, data = NoData\<rparr>"

text \<open>
  What a handler sees of the request besides its body: \<open>req.user\<close> (set by the
  authentication middleware), the clock read by \<open>new Date()\<close>, and whether the write to
  the \<open>logs\<close> table goes through.
\<close>

record req_context =
  caller :: user
  now :: int
  logWritable :: bool

section \<open>Audit log: \<open>utils/logger.js\<close>\<close>

text \<open>
  \<open>Log.create\<close> runs the validators of the model (\<open>action\<close> and \<open>entityType\<close> not
  empty, \<open>entityId\<close> at least 1) and inserts the row; it throws when a validator rejects
  or when the table cannot be written. \<open>None\<close> is the thrown error.
\<close>

definition is_space :: "char \<Rightarrow> bool" where
  "is_space c = (c \<in> {CHR '' '', CHR 0x09, CHR 0x0A, CHR 0x0B, CHR 0x0C, CHR 0x0D, CHR 0xA0})"

definition notEmpty :: "string \<Rightarrow> bool" where
  "notEmpty s = (\<exists>c \<in> set s. \<not> is_space c)"

definition Log_create ::
  "bool \<Rightarrow> string \<Rightarrow> string \<Rightarrow> int \<Rightarrow> snapshot option \<Rightarrow> snapshot option \<Rightarrow> int \<Rightarrow> int
     \<Rightarrow> db \<Rightarrow> (log_row \<times> db) option" where
  "Log_create writable act ety eid ov nv who t d =
     (if \<not> writable \<or> \<not> notEmpty act \<or> \<not> notEmpty ety \<or> eid < 1 then None
      else let row = \<lparr>log_id = nextLogId d, action = act, log_entityType = ety,
                      log_entityId = eid, oldValue = ov, newValue = nv,
                      performedBy = who, timestamp = t\<rparr>
           in Some (row, d\<lparr>logs := logs d @ [row], nextLogId := nextLogId d + 1\<rparr>))"

text \<open>
  \<open>createLog\<close>: the whole body is in a \<open>try\<close>; the \<open>catch\<close> prints the error and
  returns \<open>null\<close>.
\<close>

definition createLog ::
  "req_context \<Rightarrow> string \<Rightarrow> string \<Rightarrow> int \<Rightarrow> snapshot option \<Rightarrow> snapshot option \<Rightarrow> int
     \<Rightarrow> db \<Rightarrow> log_row option \<times> db" where
  "createLog cx act ety eid ov nv who d =
     (case Log_create (logWritable cx) act ety eid ov nv who (now cx) d of
        Some (row, d') \<Rightarrow> (Some row, d')
      | None \<Rightarrow> (None, d))"

section \<open>Comment controller\<close>

definition validEntityTypes :: "string list" where
  "validEntityTypes = [''project'', ''document'', ''task'', ''meeting'']"

text \<open>
  The \<open>switch (entityType)\<close> of both handlers: one \<open>findByPk\<close> on the table of the
  kind, journalled; no \<open>default\<close> branch, so another kind leaves \<open>entity\<close> undefined and
  issues no query.
\<close>

definition findEntity :: "string \<Rightarrow> int \<Rightarrow> db \<Rightarrow> bool \<times> db" where
  "findEntity ty i d =
     (if ty = ''project'' then (i \<in> set (projects d), d\<lparr>lookups := lookups d @ [(ty, i)]\<rparr>)
      else if ty = ''document'' then (i \<in> set (documents d), d\<lparr>lookups := lookups d @ [(ty, i)]\<rparr>)
      else if ty = ''task'' then (i \<in> set (tasks d), d\<lparr>lookups := lookups d @ [(ty, i)]\<rparr>)
      else if ty = ''meeting'' then (i \<in> set (meetings d), d\<lparr>lookups := lookups d @ [(ty, i)]\<rparr>)
      else (False, d))"

text \<open>\<open>Comment.findByPk(id)\<close>.\<close>

definition findComment :: "int \<Rightarrow> db \<Rightarrow> comment_row option" where
  "findComment i d = find (\<lambda>c. cid c = i) (comments d)"

text \<open>
  \<open>Comment.create\<close>: the validators of the model (\<open>entityType\<close> in the four kinds,
  \<open>entityId\<close> at least 1, \<open>comment\<close> not blank and of 1 to 5000 characters), then the
  insert with the next primary key and \<open>createdAt\<close> set to the clock. \<open>None\<close> is the
  validation error thrown.
\<close>

definition valid_comment_text :: "string \<Rightarrow> bool" where
  "valid_comment_text s = (notEmpty s \<and> 1 \<le> length s \<and> length s \<le> 5000)"

definition Comment_create ::
  "int \<Rightarrow> string \<Rightarrow> int \<Rightarrow> int \<Rightarrow> string \<Rightarrow> int option \<Rightarrow> db \<Rightarrow> (comment_row \<times> db) option" where
  "Comment_create t ety eid u txt par d =
     (if ety \<notin> set validEntityTypes \<or> eid < 1 \<or> \<not> valid_comment_text txt then None
      else let row = \<lparr>cid = nextCommentId d, entityType = ety, entityId = eid, userId = u,
                      comment = txt, parentId = par, createdAt = t\<rparr>
           in Some (row, d\<lparr>comments := comments d @ [row],
                           nextCommentId := nextCommentId d + 1\<rparr>))"

text \<open>
  Body of \<open>POST /api/comments\<close>. A field that is absent is falsy like the empty string
  and the number zero, so \<open>!entityType\<close>, \<open>!entityId\<close>, \<open>!comment\<close> and
  \<open>if (parentId)\<close> read as below. \<open>entityId\<close> and \<open>parentId\<close> are JSON numbers.
\<close>

record create_request =
  rq_entityType :: string
  rq_entityId :: int
  rq_comment :: string
  rq_parentId :: "int option"

text \<open>
  The block \<open>if (parentId) { ... }\<close>: it answers early with a response or falls
  through. \<open>parentId\<close> is falsy when it is absent and when it is zero.
\<close>

definition checkParent :: "create_request \<Rightarrow> db \<Rightarrow> response option" where
  "checkParent rq d =
     (case rq_parentId rq of
        None \<Rightarrow> None
      | Some p \<Rightarrow>
          if p = 0 then None
          else (case findComment p d of
                  None \<Rightarrow> Some (reply 404 ParentNotFound)
                | Some parentComment \<Rightarrow>
                    if entityType parentComment \<noteq> rq_entityType rq
                       \<or> entityId parentComment \<noteq> rq_entityId rq
                    then Some (reply 400 ParentOtherEntity)
                    else None))"

text \<open>The value stored in the column: \<open>parentId || null\<close>.\<close>

definition orNull :: "int option \<Rightarrow> int option" where
  "orNull p = (case p of None \<Rightarrow> None | Some i \<Rightarrow> if i = 0 then None else Some i)"

text \<open>
  \<open>createComment\<close>, check by check in the order of the source. The \<open>catch\<close> of the
  handler turns the error thrown by \<open>Comment.create\<close> into the 500 response; what was
  done before the throw stays done. The author's name and e-mail joined to the answer
  (\<open>include: User\<close>) are not modelled.
\<close>

definition persistComment :: "req_context \<Rightarrow> create_request \<Rightarrow> db \<Rightarrow> response \<times> db" where
  "persistComment cx rq d =
     (case Comment_create (now cx) (rq_entityType rq) (rq_entityId rq) (uid (caller cx))
             (rq_comment rq) (orNull (rq_parentId rq)) d of
        None \<Rightarrow> (reply 500 CreateError, d)
      | Some (newComment, d2) \<Rightarrow>
          (let d3 = snd (createLog cx ''CREATE_COMMENT'' ''comment'' (cid newComment) None
                      (Some (Linkage (entityType newComment) (entityId newComment)
                               (parentId newComment)))
                      (uid (caller cx)) d2)
           in (\<lparr>status = 201, success = True, message = CommentCreated,
                data = OneComment (findComment (cid newComment) d3)\<rparr>, d3)))"

definition createComment :: "req_context \<Rightarrow> create_request \<Rightarrow> db \<Rightarrow> response \<times> db" where
  "createComment cx rq d =
     (if rq_entityType rq = [] \<or> rq_entityId rq = 0 \<or> rq_comment rq = [] then
        (reply 400 FieldsRequired, d)
      else if rq_entityType rq \<notin> set validEntityTypes then
        (reply 400 EntityTypeInvalid, d)
      else (let (entity, d1) = findEntity (rq_entityType rq) (rq_entityId rq) d in
        if \<not> entity then (reply 404 EntityNotFound, d1)
        else (case checkParent rq d1 of
                Some r \<Rightarrow> (r, d1)
              | None \<Rightarrow> persistComment cx rq d1)))"

text \<open>
  \<open>getEntityComments\<close>. The query asks for the rows of the entity with no parent,
  newest first (the \<open>order\<close> of the query, \<open>createdAt DESC\<close>, rows of equal date in
  insertion order), each with its \<open>replies\<close>, the rows whose \<open>parentId\<close> is its key.
  The handler also writes \<open>order: [['createdAt', 'ASC']]\<close> inside the \<open>include\<close> of
  the replies, but that include is joined into the one query (it is not
  \<open>separate: true\<close>), and the mapper builds the \<open>ORDER BY\<close> of a query from its
  top-level \<open>order\<close> only: the replies of a comment come in the order of the rows of
  the table, which is the order of their keys. The count is a second query, on the entity
  alone. The route parameter \<open>entityId\<close> is taken as the integer it denotes.
\<close>

definition repliesOf :: "comment_row \<Rightarrow> comment_row list \<Rightarrow> comment_row list" where
  "repliesOf c rows = filter (\<lambda>r. parentId r = Some (cid c)) rows"

definition topLevelOf :: "string \<Rightarrow> int \<Rightarrow> comment_row list \<Rightarrow> comment_row list" where
  "topLevelOf ety eid rows =
     sort_key (\<lambda>c. - createdAt c)
       (filter (\<lambda>c. entityType c = ety \<and> entityId c = eid \<and> parentId c = None) rows)"

definition countOf :: "string \<Rightarrow> int \<Rightarrow> comment_row list \<Rightarrow> nat" where
  "countOf ety eid rows = length (filter (\<lambda>c. entityType c = ety \<and> entityId c = eid) rows)"

definition getEntityComments :: "string \<Rightarrow> int \<Rightarrow> db \<Rightarrow> response \<times> db" where
  "getEntityComments ety eid d =
     (if ety \<notin> set validEntityTypes then (reply 400 EntityTypeInvalid, d)
      else (let (entity, d1) = findEntity ety eid d in
        if \<not> entity then (reply 404 EntityNotFound, d1)
        else (let found = map (\<lambda>c. \<lparr>root = c, replies = repliesOf c (comments d1)\<rparr>)
                            (topLevelOf ety eid (comments d1));
                  totalComments = countOf ety eid (comments d1)
              in (\<lparr>status = 200, success = True, message = NoMessage,
                   data = Listing found totalComments (length found)\<rparr>, d1))))"

text \<open>
  \<open>updateComment\<close>. \<open>existingComment.update({comment})\<close> validates the new text with
  the validators of the model and throws when they reject (the 500 of the \<open>catch\<close>).
\<close>

definition setComment :: "int \<Rightarrow> string \<Rightarrow> comment_row list \<Rightarrow> comment_row list" where
  "setComment i txt rows = map (\<lambda>c. if cid c = i then c\<lparr>comment := txt\<rparr> else c) rows"

definition updateComment :: "req_context \<Rightarrow> int \<Rightarrow> string \<Rightarrow> db \<Rightarrow> response \<times> db" where
  "updateComment cx i txt d =
     (if txt = [] then (reply 400 CommentRequired, d)
      else (case findComment i d of
              None \<Rightarrow> (reply 404 CommentNotFound, d)
            | Some existingComment \<Rightarrow>
                if userId existingComment \<noteq> uid (caller cx) then (reply 403 UpdateNotAllowed, d)
                else if \<not> valid_comment_text txt then (reply 500 UpdateError, d)
                else (let d1 = d\<lparr>comments := setComment (cid existingComment) txt (comments d)\<rparr>;
                          d2 = snd (createLog cx ''UPDATE_COMMENT'' ''comment'' (cid existingComment)
                                      (Some (Body (comment existingComment))) (Some (Body txt))
                                      (uid (caller cx)) d1)
                      in (\<lparr>status = 200, success = True, message = CommentUpdated,
                           data = OneComment (findComment (cid existingComment) d2)\<rparr>, d2))))"

text \<open>
  \<open>comment.destroy()\<close> deletes the row; the foreign key \<open>parentId\<close> is declared
  \<open>onDelete: 'CASCADE'\<close>, so the rows that reference a deleted row are deleted with it,
  and so on. \<open>cascade ids rows\<close> deletes the rows whose key is in \<open>ids\<close>, then the rows
  that referenced them.
\<close>

definition refersTo :: "int list \<Rightarrow> comment_row \<Rightarrow> bool" where
  "refersTo ids r = (case parentId r of None \<Rightarrow> False | Some p \<Rightarrow> p \<in> set ids)"

function cascade :: "int list \<Rightarrow> comment_row list \<Rightarrow> comment_row list" where
  "cascade ids rows =
     (if \<exists>r \<in> set rows. cid r \<in> set ids then
        cascade (map cid (filter (\<lambda>r. cid r \<notin> set ids \<and> refersTo ids r) rows))
                (filter (\<lambda>r. cid r \<notin> set ids) rows)
      else rows)"
  by pat_completeness auto
termination
  by (relation "measure (\<lambda>(ids, rows). length rows)") (auto intro: length_filter_less)

text \<open>
  \<open>deleteComment\<close>. The log is written before the row is destroyed; \<open>repliesCount\<close>
  is the number of rows loaded through the \<open>replies\<close> association.
\<close>

definition deleteComment :: "req_context \<Rightarrow> int \<Rightarrow> db \<Rightarrow> response \<times> db" where
  "deleteComment cx i d =
     (case findComment i d of
        None \<Rightarrow> (reply 404 CommentNotFound, d)
      | Some c \<Rightarrow>
          if userId c \<noteq> uid (caller cx) \<and> role (caller cx) \<noteq> ''admin'' then
            (reply 403 DeleteNotAllowed, d)
          else (let commentData = Deleted (cid c) (entityType c) (entityId c) (comment c)
                                    (length (filter (\<lambda>r. parentId r = Some (cid c)) (comments d)));
                    d1 = snd (createLog cx ''DELETE_COMMENT'' ''comment'' (cid c)
                                (Some commentData) None (uid (caller cx)) d)
                in (reply 200 CommentDeleted, d1\<lparr>comments := cascade [cid c] (comments d1)\<rparr>)))"

section \<open>Authentication middleware\<close>

text \<open>
  \<open>jwt.verify\<close> belongs to a library: it is a parameter, with the outcomes the
  middleware tells apart (the decoded \<open>id\<close>, the two named errors, any other error).
\<close>

datatype verified = Decoded int | TokenExpiredError | JsonWebTokenError | OtherError

text \<open>\<open>String.prototype.split\<close> on a one-character separator.\<close>

fun split_on :: "char \<Rightarrow> string \<Rightarrow> string list" where
  "split_on sep [] = [[]]"
| "split_on sep (c # cs) =
     (if c = sep then [] # split_on sep cs
      else (case split_on sep cs of
              w # ws \<Rightarrow> (c # w) # ws
            | [] \<Rightarrow> [[c]]))"

text \<open>
  The token: the second piece of the \<open>Authorization\<close> header split at spaces, when the
  header is there and starts with \<open>Bearer\<close>.
\<close>

definition bearerToken :: "string option \<Rightarrow> string option" where
  "bearerToken h =
     (case h of
        None \<Rightarrow> None
      | Some a \<Rightarrow>
          if a \<noteq> [] \<and> take 6 a = ''Bearer'' then
            (case split_on CHR '' '' a of
               _ # t # _ \<Rightarrow> Some t
             | _ \<Rightarrow> None)
          else None)"

text \<open>
  \<open>protect\<close>: \<open>Inl\<close> is the response sent without calling \<open>next()\<close>, \<open>Inr\<close> the
  user put in \<open>req.user\<close> before \<open>next()\<close>.
\<close>

definition protect :: "(string \<Rightarrow> verified) \<Rightarrow> string option \<Rightarrow> user list \<Rightarrow> response + user" where
  "protect verify h us =
     (case bearerToken h of
        None \<Rightarrow> Inl (reply 401 TokenMissing)
      | Some token \<Rightarrow>
          if token = [] then Inl (reply 401 TokenMissing)
          else (case verify token of
                  Decoded i \<Rightarrow>
                    (case find (\<lambda>u. uid u = i) us of
                       None \<Rightarrow> Inl (reply 401 UserNotFound)
                     | Some u \<Rightarrow>
                         if \<not> isActive u then Inl (reply 403 AccountDisabled)
                         else Inr u)
                | TokenExpiredError \<Rightarrow> Inl (reply 401 TokenExpired)
                | JsonWebTokenError \<Rightarrow> Inl (reply 401 TokenInvalid)
                | OtherError \<Rightarrow> Inl (reply 500 AuthError)))"

text \<open>
  A route \<open>router.METHOD(path, protect, handler)\<close>: the handler runs only when
  \<open>protect\<close> calls \<open>next()\<close>.
\<close>

definition protected ::
  "(string \<Rightarrow> verified) \<Rightarrow> string option \<Rightarrow> (user \<Rightarrow> db \<Rightarrow> response \<times> db) \<Rightarrow> db \<Rightarrow> response \<times> db" where
  "protected verify h handler d =
     (case protect verify h (users d) of
        Inl r \<Rightarrow> (r, d)
      | Inr u \<Rightarrow> handler u d)"

text \<open>The four routes of \<open>routes/comments.routes.js\<close>.\<close>

definition route_createComment ::
  "(string \<Rightarrow> verified) \<Rightarrow> string option \<Rightarrow> int \<Rightarrow> bool \<Rightarrow> create_request \<Rightarrow> db \<Rightarrow> response \<times> db" where
  "route_createComment verify h t w rq =
     protected verify h (\<lambda>u. createComment \<lparr>caller = u, now = t, logWritable = w\<rparr> rq)"

definition route_getEntityComments ::
  "(string \<Rightarrow> verified) \<Rightarrow> string option \<Rightarrow> string \<Rightarrow> int \<Rightarrow> db \<Rightarrow> response \<times> db" where
  "route_getEntityComments verify h ety eid =
     protected verify h (\<lambda>u. getEntityComments ety eid)"

definition route_updateComment ::
  "(string \<Rightarrow> verified) \<Rightarrow> string option \<Rightarrow> int \<Rightarrow> bool \<Rightarrow> int \<Rightarrow> string \<Rightarrow> db \<Rightarrow> response \<times> db" where
  "route_updateComment verify h t w i txt =
     protected verify h (\<lambda>u. updateComment \<lparr>caller = u, now = t, logWritable = w\<rparr> i txt)"

definition route_deleteComment ::
  "(string \<Rightarrow> verified) \<Rightarrow> string option \<Rightarrow> int \<Rightarrow> bool \<Rightarrow> int \<Rightarrow> db \<Rightarrow> response \<times> db" where
  "route_deleteComment verify h t w i =
     protected verify h (\<lambda>u. deleteComment \<lparr>caller = u, now = t, logWritable = w\<rparr> i)"

section \<open>Team controller: invitations\<close>

record invite_request =
  targetUserId :: int
  rq_role :: "string option"
  rq_message :: "string option"
  rq_teamId :: "int option"

text \<open>
  The first step of \<open>sendInvitation\<close>: the team named by \<open>teamId\<close> if the caller
  manages it, or, with no \<open>teamId\<close>, the first team the caller manages.
\<close>

definition resolveTeam :: "int \<Rightarrow> int option \<Rightarrow> team_db \<Rightarrow> response + team" where
  "resolveTeam mgr teamId d =
     (case orNull teamId of
        Some tid \<Rightarrow>
          (case find (\<lambda>t. team_id t = tid \<and> managerId t = mgr) (teams d) of
             None \<Rightarrow> Inl (reply 404 TeamNotFoundOrNotManager)
           | Some t \<Rightarrow> Inr t)
      | None \<Rightarrow>
          (case find (\<lambda>t. managerId t = mgr) (teams d) of
             None \<Rightarrow> Inl (reply 400 NeedTeamFirst)
           | Some t \<Rightarrow> Inr t))"

definition isMember :: "int \<Rightarrow> int \<Rightarrow> team_db \<Rightarrow> bool" where
  "isMember t u d = (\<exists>m \<in> set (members d). tm_teamId m = t \<and> tm_userId m = u)"

definition hasPending :: "int \<Rightarrow> int \<Rightarrow> team_db \<Rightarrow> bool" where
  "hasPending t u d =
     (\<exists>i \<in> set (invitations d). inv_teamId i = t \<and> inv_userId i = u \<and> inv_status i = pending)"

text \<open>
  \<open>TeamInvitation.destroy\<close> with \<open>status\<close> in \<open>declined\<close>, \<open>cancelled\<close>,
  \<open>accepted\<close>: the rows of the pair that are kept.
\<close>

definition purgeResolved :: "int \<Rightarrow> int \<Rightarrow> invitation list \<Rightarrow> invitation list" where
  "purgeResolved t u rows =
     filter (\<lambda>i. \<not> (inv_teamId i = t \<and> inv_userId i = u
                     \<and> inv_status i \<in> {declined, cancelled, accepted})) rows"

definition orMember :: "string option \<Rightarrow> string" where
  "orMember r = (case r of None \<Rightarrow> ''member'' | Some s \<Rightarrow> if s = [] then ''member'' else s)"

text \<open>
  \<open>sendInvitation\<close> reads, then writes. The reads end with the check for a pending
  invitation: they answer early (\<open>Inl\<close>) or let the handler go on with the team
  (\<open>Inr\<close>). The writes are the \<open>destroy\<close> of the resolved invitations of the pair and
  the \<open>create\<close> of the new one, answered with the row that \<open>findByPk\<close> then finds.
  Each step is its own \<open>await\<close>; no transaction and no lock joins the reads to the
  writes, and \<open>team_invitations\<close> has no unique index on the pair.
\<close>

definition invitationChecks :: "user \<Rightarrow> invite_request \<Rightarrow> team_db \<Rightarrow> response + team" where
  "invitationChecks u rq d =
     (case resolveTeam (uid u) (rq_teamId rq) d of
        Inl r \<Rightarrow> Inl r
      | Inr team \<Rightarrow>
          (case find (\<lambda>x. uid x = targetUserId rq) (team_users d) of
             None \<Rightarrow> Inl (reply 404 TargetUserNotFound)
           | Some targetUser \<Rightarrow>
               if role targetUser \<noteq> ''consultant'' then Inl (reply 400 OnlyConsultants)
               else if isMember (team_id team) (targetUserId rq) d then
                 Inl (reply 400 AlreadyMember)
               else if hasPending (team_id team) (targetUserId rq) d then
                 Inl (reply 400 AlreadyPending)
               else Inr team))"

definition invitationWrites :: "user \<Rightarrow> invite_request \<Rightarrow> team \<Rightarrow> team_db \<Rightarrow> response \<times> team_db" where
  "invitationWrites u rq team d =
     (let invit = \<lparr>inv_id = nextInvitationId d, inv_teamId = team_id team,
                   inv_userId = targetUserId rq, invitedBy = uid u,
                   inv_role = orMember (rq_role rq), inv_status = pending,
                   inv_message = rq_message rq, respondedAt = None\<rparr>;
          rows = purgeResolved (team_id team) (targetUserId rq) (invitations d) @ [invit]
      in (\<lparr>status = 201, success = True, message = InvitationSent,
           data = OneInvitation (find (\<lambda>x. inv_id x = inv_id invit) rows)\<rparr>,
          d\<lparr>invitations := rows, nextInvitationId := nextInvitationId d + 1\<rparr>))"

text \<open>The handler when nothing else runs between its reads and its writes.\<close>

definition sendInvitation :: "user \<Rightarrow> invite_request \<Rightarrow> team_db \<Rightarrow> response \<times> team_db" where
  "sendInvitation u rq d =
     (case invitationChecks u rq d of
        Inl r \<Rightarrow> (r, d)
      | Inr team \<Rightarrow> invitationWrites u rq team d)"

text \<open>
  \<open>respondToInvitation\<close>: the status is updated first; on \<open>accepted\<close> the member row
  is inserted afterwards, and the unique index of \<open>team_members\<close> makes that insert throw
  when the pair is already there (the 500 of the \<open>catch\<close>, the status update kept).
  The answer carries the invitation as updated (\<open>data: { invitation }\<close>).
\<close>

definition setStatus :: "int \<Rightarrow> inv_status \<Rightarrow> int option \<Rightarrow> invitation list \<Rightarrow> invitation list" where
  "setStatus i st t rows =
     map (\<lambda>x. if inv_id x = i then x\<lparr>inv_status := st, respondedAt := t\<rparr> else x) rows"

definition respondToInvitation :: "user \<Rightarrow> int \<Rightarrow> int \<Rightarrow> string \<Rightarrow> team_db \<Rightarrow> response \<times> team_db" where
  "respondToInvitation u t invitationId resp d =
     (if resp \<noteq> ''accepted'' \<and> resp \<noteq> ''declined'' then (reply 400 ResponseInvalid, d)
      else (case find (\<lambda>i. inv_id i = invitationId \<and> inv_userId i = uid u \<and> inv_status i = pending)
                   (invitations d) of
              None \<Rightarrow> (reply 404 InvitationNotFound, d)
            | Some invit \<Rightarrow>
                (let st = (if resp = ''accepted'' then accepted else declined);
                     d1 = d\<lparr>invitations := setStatus (inv_id invit) st (Some t) (invitations d)\<rparr>;
                     updated = invit\<lparr>inv_status := st, respondedAt := Some t\<rparr>
                 in if resp = ''accepted'' then
                      (if isMember (inv_teamId invit) (uid u) d1 then (reply 500 RespondError, d1)
                       else (\<lparr>status = 200, success = True, message = JoinedTeam,
                              data = OneInvitation (Some updated)\<rparr>,
                             d1\<lparr>members := members d1 @
                                   [\<lparr>tm_teamId = inv_teamId invit, tm_userId = uid u,
                                     tm_role = inv_role invit\<rparr>]\<rparr>))
                    else (\<lparr>status = 200, success = True, message = InvitationDeclined,
                           data = OneInvitation (Some updated)\<rparr>, d1))))"

text \<open>
  \<open>invitation.update({ status: 'cancelled' })\<close> leaves \<open>respondedAt\<close> as it is.
\<close>

definition cancelStatus :: "int \<Rightarrow> invitation list \<Rightarrow> invitation list" where
  "cancelStatus i rows = map (\<lambda>x. if inv_id x = i then x\<lparr>inv_status := cancelled\<rparr> else x) rows"

definition cancelInvitation :: "user \<Rightarrow> int \<Rightarrow> team_db \<Rightarrow> response \<times> team_db" where
  "cancelInvitation u invitationId d =
     (let teamIds = map team_id (filter (\<lambda>t. managerId t = uid u) (teams d)) in
      if teamIds = [] then (reply 404 NoTeamsFound, d)
      else (case find (\<lambda>i. inv_id i = invitationId \<and> inv_teamId i \<in> set teamIds
                            \<and> inv_status i = pending) (invitations d) of
              None \<Rightarrow> (reply 404 InvitationNotFound, d)
            | Some invit \<Rightarrow>
                (reply 200 InvitationCancelled,
                 d\<lparr>invitations := cancelStatus (inv_id invit) (invitations d)\<rparr>)))"

definition removeMember :: "user \<Rightarrow> int \<Rightarrow> team_db \<Rightarrow> response \<times> team_db" where
  "removeMember u memberId d =
     (case find (\<lambda>t. managerId t = uid u) (teams d) of
        None \<Rightarrow> (reply 404 TeamNotFound, d)
      | Some t \<Rightarrow>
          (case find (\<lambda>m. tm_teamId m = team_id t \<and> tm_userId m = memberId) (members d) of
             None \<Rightarrow> (reply 404 MemberNotFound, d)
           | Some m \<Rightarrow> (reply 200 MemberRemoved, d\<lparr>members := remove1 m (members d)\<rparr>)))"

definition removeTeamMember :: "user \<Rightarrow> int \<Rightarrow> int \<Rightarrow> team_db \<Rightarrow> response \<times> team_db" where
  "removeTeamMember u teamId memberId d =
     (case find (\<lambda>t. team_id t = teamId \<and> managerId t = uid u) (teams d) of
        None \<Rightarrow> (reply 404 TeamNotFoundOrNotManager, d)
      | Some t \<Rightarrow>
          (case find (\<lambda>m. tm_teamId m = teamId \<and> tm_userId m = memberId) (members d) of
             None \<Rightarrow> (reply 404 MemberNotFound, d)
           | Some m \<Rightarrow> (reply 200 MemberRemoved, d\<lparr>members := remove1 m (members d)\<rparr>)))"

section \<open>Properties of a store\<close>

text \<open>
  The reply linkage: a row with a parent has that parent in the table, on the same entity.
\<close>

definition parentOk :: "comment_row list \<Rightarrow> comment_row \<Rightarrow> bool" where
  "parentOk rows c =
     (case parentId c of
        None \<Rightarrow> True
      | Some p \<Rightarrow> (\<exists>q \<in> set rows. cid q = p \<and> entityType q = entityType c
                                   \<and> entityId q = entityId c))"

definition linked :: "comment_row list \<Rightarrow> bool" where
  "linked rows = (\<forall>c \<in> set rows. parentOk rows c)"

text \<open>Primary keys are distinct and below the auto-increment counter.\<close>

definition freshIds :: "db \<Rightarrow> bool" where
  "freshIds d = (distinct (map cid (comments d)) \<and> (\<forall>c \<in> set (comments d). cid c < nextCommentId d))"

text \<open>
  The stores the comment controller can be in: it starts with an empty \<open>comments\<close>
  table, every request to one of its four handlers is a step, and the other controllers
  change the other tables only.
\<close>

inductive reachable :: "db \<Rightarrow> bool" where
  initial: "comments d = [] \<Longrightarrow> reachable d"
| created: "reachable d \<Longrightarrow> reachable (snd (createComment cx rq d))"
| listed: "reachable d \<Longrightarrow> reachable (snd (getEntityComments ety eid d))"
| updated: "reachable d \<Longrightarrow> reachable (snd (updateComment cx i txt d))"
| deleted: "reachable d \<Longrightarrow> reachable (snd (deleteComment cx i d))"
| elsewhere: "reachable d \<Longrightarrow> comments d' = comments d \<Longrightarrow> nextCommentId d' = nextCommentId d
              \<Longrightarrow> reachable d'"

text \<open>The comments a listing shows: the top-level rows and the replies attached to them.\<close>

definition visible :: "thread list \<Rightarrow> nat" where
  "visible ths = length ths + sum_list (map (\<lambda>th. length (replies th)) ths)"

text \<open>At most one pending invitation for each pair of a team and a user.\<close>

definition pendingFor :: "int \<Rightarrow> int \<Rightarrow> invitation list \<Rightarrow> invitation list" where
  "pendingFor t u rows =
     filter (\<lambda>i. inv_teamId i = t \<and> inv_userId i = u \<and> inv_status i = pending) rows"

definition singlePending :: "team_db \<Rightarrow> bool" where
  "singlePending d = (\<forall>t u. length (pendingFor t u (invitations d)) \<le> 1)"

text \<open>
  The stores the team controller can be in when it handles one request at a time: no
  invitation and no member at first; the requests that write \<open>team_invitations\<close> or
  \<open>team_members\<close> are the steps, each run from its first read to its last write, and
  users and teams change elsewhere.
\<close>

inductive team_reachable :: "team_db \<Rightarrow> bool" where
  t_initial: "invitations d = [] \<Longrightarrow> members d = [] \<Longrightarrow> team_reachable d"
| t_sent: "team_reachable d \<Longrightarrow> team_reachable (snd (sendInvitation u rq d))"
| t_responded: "team_reachable d \<Longrightarrow> team_reachable (snd (respondToInvitation u t i resp d))"
| t_cancelled: "team_reachable d \<Longrightarrow> team_reachable (snd (cancelInvitation u i d))"
| t_removed: "team_reachable d \<Longrightarrow> team_reachable (snd (removeMember u m d))"
| t_removed_from: "team_reachable d \<Longrightarrow> team_reachable (snd (removeTeamMember u t m d))"
| t_elsewhere: "team_reachable d \<Longrightarrow> team_reachable (d\<lparr>team_users := us, teams := ts\<rparr>)"

section \<open>Example stores\<close>

definition alice :: user where
  "alice = \<lparr>uid = 7, role = ''consultant'', isActive = True\<rparr>"

definition bob :: user where
  "bob = \<lparr>uid = 3, role = ''consultant'', isActive = True\<rparr>"

definition carol :: user where
  "carol = \<lparr>uid = 4, role = ''project_manager'', isActive = False\<rparr>"

definition dana :: user where
  "dana = \<lparr>uid = 1, role = ''admin'', isActive = True\<rparr>"

definition eve :: user where
  "eve = \<lparr>uid = 10, role = ''project_manager'', isActive = True\<rparr>"

definition asking :: "user \<Rightarrow> int \<Rightarrow> req_context" where
  "asking u t = \<lparr>caller = u, now = t, logWritable = True\<rparr>"

definition asking_unlogged :: "user \<Rightarrow> int \<Rightarrow> req_context" where
  "asking_unlogged u t = \<lparr>caller = u, now = t, logWritable = False\<rparr>"

definition blank_db :: db where
  "blank_db = \<lparr>users = [alice, bob, carol, dana], projects = [1], documents = [],
               tasks = [5], meetings = [], comments = [], nextCommentId = 1, logs = [],
               nextLogId = 1, lookups = []\<rparr>"

definition on_project :: "string \<Rightarrow> int option \<Rightarrow> create_request" where
  "on_project txt par =
     \<lparr>rq_entityType = ''project'', rq_entityId = 1, rq_comment = txt, rq_parentId = par\<rparr>"

definition on_task :: "string \<Rightarrow> int option \<Rightarrow> create_request" where
  "on_task txt par =
     \<lparr>rq_entityType = ''task'', rq_entityId = 5, rq_comment = txt, rq_parentId = par\<rparr>"

text \<open>
  A thread on project 1: a top-level comment by Alice, Bob's reply to it, and Alice's reply
  to that reply.
\<close>

definition nice_work :: comment_row where
  "nice_work = \<lparr>cid = 1, entityType = ''project'', entityId = 1, userId = 7,
                comment = ''nice work'', parentId = None, createdAt = 100\<rparr>"

definition thanks :: comment_row where
  "thanks = \<lparr>cid = 2, entityType = ''project'', entityId = 1, userId = 3,
             comment = ''thanks'', parentId = Some 1, createdAt = 200\<rparr>"

definition anytime :: comment_row where
  "anytime = \<lparr>cid = 3, entityType = ''project'', entityId = 1, userId = 7,
              comment = ''anytime'', parentId = Some 2, createdAt = 300\<rparr>"

definition thread_db :: db where
  "thread_db = \<lparr>users = [alice, bob, carol, dana], projects = [1], documents = [],
                tasks = [5], meetings = [], comments = [nice_work, thanks, anytime],
                nextCommentId = 4, logs = [], nextLogId = 1, lookups = []\<rparr>"



text \<open>Eve manages team 1; Bob is a consultant she invites.\<close>

definition team_start :: team_db where
  "team_start = \<lparr>team_users = [alice, bob, carol, dana, eve],
                 teams = [\<lparr>team_id = 1, managerId = 10\<rparr>], members = [], invitations = [],
                 nextInvitationId = 1\<rparr>"

definition invite_bob :: invite_request where
  "invite_bob = \<lparr>targetUserId = 3, rq_role = None, rq_message = None, rq_teamId = Some 1\<rparr>"

definition team_invited :: team_db where
  "team_invited = snd (sendInvitation eve invite_bob team_start)"

definition team_declined :: team_db where
  "team_declined = snd (respondToInvitation bob 50 1 ''declined'' team_invited)"

definition team_joined :: team_db where
  "team_joined = snd (respondToInvitation bob 50 1 ''accepted'' team_invited)"

text \<open>
  Two invites of Bob by Eve that overlap: both handlers have done their reads on the
  starting store, then the first does its writes, then the second.
\<close>

definition team_raced :: team_db where
  "team_raced =
     snd (invitationWrites eve invite_bob \<lparr>team_id = 1, managerId = 10\<rparr>
            (snd (invitationWrites eve invite_bob \<lparr>team_id = 1, managerId = 10\<rparr> team_start)))"

text \<open>A token checker that accepts three tokens, for Alice, Carol and Dana.\<close>

definition verify_demo :: "string \<Rightarrow> verified" where
  "verify_demo tok =
     (if tok = ''alice'' then Decoded 7
      else if tok = ''carol'' then Decoded 4
      else if tok = ''dana'' then Decoded 1
      else if tok = ''old'' then TokenExpiredError
      else JsonWebTokenError)"

section \<open>Basic facts\<close>

declare cascade.simps [simp del]

lemma find_Some_holds: "find P xs = Some x \<Longrightarrow> P x \<and> x \<in> set xs"
  by (induction xs) (auto split: if_splits)

lemma findComment_Some: "findComment i d = Some c \<Longrightarrow> cid c = i \<and> c \<in> set (comments d)"
  unfolding findComment_def by (drule find_Some_holds) simp

lemma createLog_shape:
  "\<exists>l n. snd (createLog cx a e i ov nv w d) = d\<lparr>logs := l, nextLogId := n\<rparr>"
proof (cases "Log_create (logWritable cx) a e i ov nv w (now cx) d")
  case None
  then have "snd (createLog cx a e i ov nv w d) = d\<lparr>logs := logs d, nextLogId := nextLogId d\<rparr>"
    by (simp add: createLog_def)
  then show ?thesis by blast
next
  case (Some p)
  then show ?thesis
    by (cases p) (auto simp: createLog_def Log_create_def Let_def split: if_splits)
qed

lemma createLog_comments [simp]: "comments (snd (createLog cx a e i ov nv w d)) = comments d"
  using createLog_shape [of cx a e i ov nv w d] by (elim exE) simp

lemma createLog_nextCommentId [simp]:
  "nextCommentId (snd (createLog cx a e i ov nv w d)) = nextCommentId d"
  using createLog_shape [of cx a e i ov nv w d] by (elim exE) simp

lemma createLog_lookups [simp]: "lookups (snd (createLog cx a e i ov nv w d)) = lookups d"
  using createLog_shape [of cx a e i ov nv w d] by (elim exE) simp

lemma createLog_findComment [simp]:
  "findComment j (snd (createLog cx a e i ov nv w d)) = findComment j d"
  by (simp add: findComment_def)

lemma createLog_unwritable:
  "\<not> logWritable cx \<Longrightarrow> createLog cx a e i ov nv w d = (None, d)"
  by (simp add: createLog_def Log_create_def)

lemma findEntity_comments [simp]: "comments (snd (findEntity ty i d)) = comments d"
  by (simp add: findEntity_def)

lemma findEntity_nextCommentId [simp]: "nextCommentId (snd (findEntity ty i d)) = nextCommentId d"
  by (simp add: findEntity_def)

lemma findEntity_logs [simp]: "logs (snd (findEntity ty i d)) = logs d"
  by (simp add: findEntity_def)

lemma findEntity_lookups:
  "lookups (snd (findEntity ty i d)) =
     (if ty \<in> set validEntityTypes then lookups d @ [(ty, i)] else lookups d)"
  by (simp add: findEntity_def validEntityTypes_def)

lemma findEntity_findComment [simp]: "findComment j (snd (findEntity ty i d)) = findComment j d"
  by (simp add: findComment_def)

subsection \<open>The cascade\<close>

lemma cascade_unfold:
  "\<exists>r \<in> set rows. cid r \<in> set ids \<Longrightarrow>
   cascade ids rows =
     cascade (map cid (filter (\<lambda>r. cid r \<notin> set ids \<and> refersTo ids r) rows))
             (filter (\<lambda>r. cid r \<notin> set ids) rows)"
  by (subst cascade.simps) simp

lemma cascade_done: "\<not> (\<exists>r \<in> set rows. cid r \<in> set ids) \<Longrightarrow> cascade ids rows = rows"
  by (subst cascade.simps) simp

lemma cascade_subset: "set (cascade ids rows) \<subseteq> set rows"
proof (induction ids rows rule: cascade.induct)
  case (1 ids rows)
  show ?case
  proof (cases "\<exists>r \<in> set rows. cid r \<in> set ids")
    case True
    then have "set (cascade ids rows) \<subseteq> set (filter (\<lambda>r. cid r \<notin> set ids) rows)"
      using "1.IH" by (simp add: cascade_unfold)
    then show ?thesis by auto
  next
    case False
    then show ?thesis by (simp add: cascade_done)
  qed
qed

lemma cascade_removes:
  assumes "r \<in> set (cascade ids rows)"
  shows "cid r \<notin> set ids"
proof (cases "\<exists>r \<in> set rows. cid r \<in> set ids")
  case True
  then have "cascade ids rows =
      cascade (map cid (filter (\<lambda>r. cid r \<notin> set ids \<and> refersTo ids r) rows))
              (filter (\<lambda>r. cid r \<notin> set ids) rows)"
    by (rule cascade_unfold)
  with assms cascade_subset have "r \<in> set (filter (\<lambda>r. cid r \<notin> set ids) rows)"
    by fastforce
  then show ?thesis by simp
next
  case False
  with assms show ?thesis by (auto simp: cascade_done)
qed

lemma cascade_orphans:
  assumes "\<exists>x \<in> set rows. cid x \<in> set ids" and "r \<in> set (cascade ids rows)"
  shows "\<not> refersTo ids r"
proof
  assume ref: "refersTo ids r"
  let ?ids' = "map cid (filter (\<lambda>r. cid r \<notin> set ids \<and> refersTo ids r) rows)"
  let ?rows' = "filter (\<lambda>r. cid r \<notin> set ids) rows"
  from assms have in': "r \<in> set (cascade ?ids' ?rows')" by (simp add: cascade_unfold)
  then have "r \<in> set ?rows'" using cascade_subset by blast
  with ref have "cid r \<in> set ?ids'" by auto
  with cascade_removes [OF in'] show False by blast
qed

lemma find_cid_cascade: "find (\<lambda>c. cid c = i) (cascade [i] rows) = None"
  using cascade_removes [of _ "[i]" rows] by (auto simp: find_None_iff)

section \<open>Who may delete\<close>

text \<open>
  C6. For an existing comment: the author's delete succeeds and the comment is gone; a
  caller who is neither the author nor an admin gets the 403 and the store is left as it
  was; an admin who is not the author succeeds like the author.
\<close>

theorem delete_author_or_admin:
  assumes "findComment i d = Some c"
  shows "(userId c = uid (caller cx) \<longrightarrow>
            fst (deleteComment cx i d) = reply 200 CommentDeleted
            \<and> findComment i (snd (deleteComment cx i d)) = None)
       \<and> (userId c \<noteq> uid (caller cx) \<and> role (caller cx) \<noteq> ''admin'' \<longrightarrow>
            deleteComment cx i d = (reply 403 DeleteNotAllowed, d))
       \<and> (userId c \<noteq> uid (caller cx) \<and> role (caller cx) = ''admin'' \<longrightarrow>
            fst (deleteComment cx i d) = reply 200 CommentDeleted
            \<and> findComment i (snd (deleteComment cx i d)) = None)"
proof -
  have k: "cid c = i" using assms by (simp add: findComment_Some)
  show ?thesis
    using assms k by (simp add: deleteComment_def Let_def findComment_def find_cid_cascade)
qed

lemma thread_db_find_1: "findComment 1 thread_db = Some nice_work"
  by (simp add: findComment_def thread_db_def nice_work_def)

theorem delete_author_or_admin_witness:
  "findComment 1 thread_db = Some nice_work
   \<and> fst (deleteComment (asking alice 400) 1 thread_db) = reply 200 CommentDeleted
   \<and> findComment 1 (snd (deleteComment (asking alice 400) 1 thread_db)) = None
   \<and> deleteComment (asking bob 400) 1 thread_db = (reply 403 DeleteNotAllowed, thread_db)
   \<and> fst (deleteComment (asking dana 400) 1 thread_db) = reply 200 CommentDeleted
   \<and> findComment 1 (snd (deleteComment (asking dana 400) 1 thread_db)) = None"
proof -
  have a: "userId nice_work = uid (caller (asking alice 400))"
    by (simp add: asking_def alice_def nice_work_def)
  have b: "userId nice_work \<noteq> uid (caller (asking bob 400))
           \<and> role (caller (asking bob 400)) \<noteq> ''admin''"
    by (simp add: asking_def bob_def nice_work_def)
  have c: "userId nice_work \<noteq> uid (caller (asking dana 400))
           \<and> role (caller (asking dana 400)) = ''admin''"
    by (simp add: asking_def dana_def nice_work_def)
  note T = delete_author_or_admin [OF thread_db_find_1]
  note T1 = T [of "asking alice 400", THEN conjunct1, THEN mp, OF a]
  note T2 = T [of "asking bob 400", THEN conjunct2, THEN conjunct1, THEN mp, OF b]
  note T3 = T [of "asking dana 400", THEN conjunct2, THEN conjunct2, THEN mp, OF c]
  from thread_db_find_1 T1 T2 T3 show ?thesis
    by (intro conjI) (erule conjunct1 conjunct2 | assumption)+
qed

section \<open>Who may update\<close>

text \<open>
  C5, as amended. For an existing comment and a caller who is not its author, whatever the
  caller's role: an update with a non-empty text is refused with the 403, an update with an
  empty text is refused by the check that comes first, with the 400 for the missing text;
  either way the store is left as it was. And an update of the comment succeeds only for
  its author.
\<close>

theorem update_author_only:
  assumes "findComment i d = Some c" and "userId c \<noteq> uid (caller cx)"
  shows "updateComment cx i txt d =
           (if txt = [] then reply 400 CommentRequired else reply 403 UpdateNotAllowed, d)
       \<and> (\<forall>cx' txt'. success (fst (updateComment cx' i txt' d)) \<longrightarrow> userId c = uid (caller cx'))"
  using assms by (simp add: updateComment_def reply_def Let_def)

lemma nice_work_not_dana: "userId nice_work \<noteq> uid (caller (asking dana 400))"
  by (simp add: asking_def dana_def nice_work_def)

theorem update_author_only_witness:
  "findComment 1 thread_db = Some nice_work
   \<and> userId nice_work \<noteq> uid (caller (asking dana 400))
   \<and> role (caller (asking dana 400)) = ''admin''
   \<and> updateComment (asking dana 400) 1 ''edited'' thread_db = (reply 403 UpdateNotAllowed, thread_db)
   \<and> success (fst (updateComment (asking alice 400) 1 ''edited'' thread_db))
   \<and> userId nice_work = uid (caller (asking alice 400))"
proof -
  have ok: "success (fst (updateComment (asking alice 400) 1 ''edited'' thread_db))"
    by (simp add: updateComment_def thread_db_find_1 nice_work_def asking_def alice_def
          valid_comment_text_def notEmpty_def is_space_def Let_def)
  have author: "userId nice_work = uid (caller (asking alice 400))"
    using update_author_only [OF thread_db_find_1 nice_work_not_dana, THEN conjunct2] ok
    by blast
  have "updateComment (asking dana 400) 1 ''edited'' thread_db =
          (if ''edited'' = [] then reply 400 CommentRequired else reply 403 UpdateNotAllowed, thread_db)"
    by (rule update_author_only [OF thread_db_find_1 nice_work_not_dana, THEN conjunct1])
  then have "updateComment (asking dana 400) 1 ''edited'' thread_db =
          (reply 403 UpdateNotAllowed, thread_db)"
    by simp
  moreover have "role (caller (asking dana 400)) = ''admin''"
    by (simp add: asking_def dana_def)
  ultimately show ?thesis
    using thread_db_find_1 nice_work_not_dana ok author by (intro conjI)
qed

text \<open>
  As the specification words it, the property fails when the new text is empty: Bob, who is not the author of
  comment 1, gets the 400 for the missing text, not the 403.
\<close>

theorem update_forbidden_counterexample:
  "findComment 1 thread_db = Some nice_work
   \<and> userId nice_work \<noteq> uid (caller (asking bob 400))
   \<and> fst (updateComment (asking bob 400) 1 [] thread_db) = reply 400 CommentRequired
   \<and> status (fst (updateComment (asking bob 400) 1 [] thread_db)) \<noteq> 403"
  by (simp add: thread_db_find_1 updateComment_def reply_def asking_def bob_def nice_work_def)

section \<open>Entity kinds\<close>

text \<open>
  C4, as amended. For an entity kind outside the four and any entity id: the listing is
  refused with the 400 for the invalid kind; a create is refused with a 400 too, the one
  for the invalid kind when the kind, the id and the text are all present, the one for
  missing fields otherwise (that check comes first). In every case the store is returned
  as it was: nothing is written, and the journal of entity lookups has no new entry.
\<close>

theorem entity_type_closure:
  assumes "ety \<notin> set validEntityTypes"
  shows "getEntityComments ety eid d = (reply 400 EntityTypeInvalid, d)
       \<and> createComment cx \<lparr>rq_entityType = ety, rq_entityId = eid, rq_comment = txt,
                             rq_parentId = par\<rparr> d =
           (if ety = [] \<or> eid = 0 \<or> txt = [] then reply 400 FieldsRequired
            else reply 400 EntityTypeInvalid, d)
       \<and> lookups (snd (getEntityComments ety eid d)) = lookups d
       \<and> lookups (snd (createComment cx \<lparr>rq_entityType = ety, rq_entityId = eid,
                                           rq_comment = txt, rq_parentId = par\<rparr> d)) = lookups d"
  using assms by (simp add: getEntityComments_def createComment_def)

lemma folder_invalid: "''folder'' \<notin> set validEntityTypes"
  by (simp add: validEntityTypes_def)

theorem entity_type_closure_witness:
  "''folder'' \<notin> set validEntityTypes
   \<and> getEntityComments ''folder'' 1 blank_db = (reply 400 EntityTypeInvalid, blank_db)
   \<and> createComment (asking alice 100)
        \<lparr>rq_entityType = ''folder'', rq_entityId = 1, rq_comment = ''hi'', rq_parentId = None\<rparr>
        blank_db = (reply 400 EntityTypeInvalid, blank_db)"
proof -
  note T = entity_type_closure [OF folder_invalid, of 1 blank_db "asking alice 100" "''hi''" None]
  from T have "getEntityComments ''folder'' 1 blank_db = (reply 400 EntityTypeInvalid, blank_db)"
    by (rule conjunct1)
  moreover from T have "createComment (asking alice 100)
        \<lparr>rq_entityType = ''folder'', rq_entityId = 1, rq_comment = ''hi'', rq_parentId = None\<rparr>
        blank_db = (reply 400 EntityTypeInvalid, blank_db)"
    by simp
  ultimately show ?thesis using folder_invalid by (intro conjI)
qed

text \<open>
  As the specification words it, the property fails for a create whose entity id is zero: the answer is the 400 for
  missing fields, not the one for the invalid kind.
\<close>

theorem entity_type_closure_counterexample:
  "''folder'' \<notin> set validEntityTypes
   \<and> fst (createComment (asking alice 100)
        \<lparr>rq_entityType = ''folder'', rq_entityId = 0, rq_comment = ''hi'', rq_parentId = None\<rparr>
        blank_db) = reply 400 FieldsRequired
   \<and> reply 400 FieldsRequired \<noteq> reply 400 EntityTypeInvalid"
  by (simp add: validEntityTypes_def createComment_def reply_def)

section \<open>A failed audit write\<close>

lemma checkParent_findEntity [simp]:
  "checkParent rq (snd (findEntity ty i d)) = checkParent rq d"
  by (simp add: checkParent_def split: option.splits)

lemma find_setComment_same:
  "find (\<lambda>c. cid c = i) (setComment i s rows)
     = map_option (\<lambda>c. c\<lparr>comment := s\<rparr>) (find (\<lambda>c. cid c = i) rows)"
  by (induction rows) (simp_all add: setComment_def)

lemma find_setComment_other:
  "j \<noteq> i \<Longrightarrow> find (\<lambda>c. cid c = j) (setComment i s rows) = find (\<lambda>c. cid c = j) rows"
  by (induction rows) (simp_all add: setComment_def)

text \<open>
  C2. When the \<open>logs\<close> table cannot be written, \<open>createLog\<close> returns \<open>null\<close> and
  leaves the store as it was. A create, an update and a delete whose preconditions hold
  then answer as they do when the log is written, with their success status, and no log
  row is added. Their state change is applied: after the create the new row is the last of
  the table; after the update the comment is found with the new text and every other
  comment is found as before; after the delete the comment is not found.
\<close>

theorem audit_failure_not_propagated:
  assumes "\<not> logWritable cx"
  shows "createLog cx a e k ov nv w d = (None, d)
       \<and> (rq_entityType rq \<in> set validEntityTypes \<and> 1 \<le> rq_entityId rq
            \<and> valid_comment_text (rq_comment rq)
            \<and> fst (findEntity (rq_entityType rq) (rq_entityId rq) d)
            \<and> checkParent rq d = None \<longrightarrow>
          status (fst (createComment cx rq d)) = 201
          \<and> fst (createComment cx rq d) = fst (createComment (cx\<lparr>logWritable := True\<rparr>) rq d)
          \<and> comments (snd (createComment cx rq d)) =
              comments d @ [\<lparr>cid = nextCommentId d, entityType = rq_entityType rq,
                              entityId = rq_entityId rq, userId = uid (caller cx),
                              comment = rq_comment rq, parentId = orNull (rq_parentId rq),
                              createdAt = now cx\<rparr>]
          \<and> logs (snd (createComment cx rq d)) = logs d)
       \<and> (\<forall>c. findComment i d = Some c \<and> userId c = uid (caller cx) \<and> valid_comment_text s \<longrightarrow>
          status (fst (updateComment cx i s d)) = 200
          \<and> fst (updateComment cx i s d) = fst (updateComment (cx\<lparr>logWritable := True\<rparr>) i s d)
          \<and> comments (snd (updateComment cx i s d)) = setComment i s (comments d)
          \<and> findComment i (snd (updateComment cx i s d)) = Some (c\<lparr>comment := s\<rparr>)
          \<and> (\<forall>j. j \<noteq> i \<longrightarrow> findComment j (snd (updateComment cx i s d)) = findComment j d)
          \<and> logs (snd (updateComment cx i s d)) = logs d)
       \<and> (\<forall>c. findComment i d = Some c
              \<and> (userId c = uid (caller cx) \<or> role (caller cx) = ''admin'') \<longrightarrow>
          status (fst (deleteComment cx i d)) = 200
          \<and> fst (deleteComment cx i d) = fst (deleteComment (cx\<lparr>logWritable := True\<rparr>) i d)
          \<and> comments (snd (deleteComment cx i d)) = cascade [i] (comments d)
          \<and> findComment i (snd (deleteComment cx i d)) = None
          \<and> logs (snd (deleteComment cx i d)) = logs d)"
proof (intro conjI impI allI)
  show "createLog cx a e k ov nv w d = (None, d)"
    using assms by (rule createLog_unwritable)
next
  assume pre: "rq_entityType rq \<in> set validEntityTypes \<and> 1 \<le> rq_entityId rq
            \<and> valid_comment_text (rq_comment rq)
            \<and> fst (findEntity (rq_entityType rq) (rq_entityId rq) d)
            \<and> checkParent rq d = None"
  let ?d1 = "snd (findEntity (rq_entityType rq) (rq_entityId rq) d)"
  have body: "rq_comment rq \<noteq> []" using pre by (auto simp: valid_comment_text_def)
  have ty: "rq_entityType rq \<noteq> []" using pre by (auto simp: validEntityTypes_def)
  have par: "checkParent rq ?d1 = None" using pre by simp
  have step: "createComment cx' rq d = persistComment cx' rq ?d1" for cx'
    using pre body ty par by (simp add: createComment_def split_beta)
  show "status (fst (createComment cx rq d)) = 201"
    using pre by (simp add: step persistComment_def Comment_create_def Let_def)
  show "fst (createComment cx rq d) = fst (createComment (cx\<lparr>logWritable := True\<rparr>) rq d)"
    using pre by (simp add: step persistComment_def Comment_create_def Let_def)
  show "comments (snd (createComment cx rq d)) =
              comments d @ [\<lparr>cid = nextCommentId d, entityType = rq_entityType rq,
                              entityId = rq_entityId rq, userId = uid (caller cx),
                              comment = rq_comment rq, parentId = orNull (rq_parentId rq),
                              createdAt = now cx\<rparr>]"
    using pre by (simp add: step persistComment_def Comment_create_def Let_def)
  show "logs (snd (createComment cx rq d)) = logs d"
    using pre assms
    by (simp add: step persistComment_def Comment_create_def Let_def createLog_unwritable)
next
  fix c
  assume pre: "findComment i d = Some c \<and> userId c = uid (caller cx) \<and> valid_comment_text s"
  have k: "cid c = i" using pre findComment_Some by blast
  have body: "s \<noteq> []" using pre by (auto simp: valid_comment_text_def)
  show "status (fst (updateComment cx i s d)) = 200"
    using pre body by (simp add: updateComment_def Let_def)
  show "fst (updateComment cx i s d) = fst (updateComment (cx\<lparr>logWritable := True\<rparr>) i s d)"
    using pre body by (simp add: updateComment_def Let_def findComment_def)
  show upd: "comments (snd (updateComment cx i s d)) = setComment i s (comments d)"
    using pre body k by (simp add: updateComment_def Let_def)
  show "findComment i (snd (updateComment cx i s d)) = Some (c\<lparr>comment := s\<rparr>)"
    using pre by (simp add: findComment_def upd find_setComment_same)
  show "findComment j (snd (updateComment cx i s d)) = findComment j d" if "j \<noteq> i" for j
    using that by (simp add: findComment_def upd find_setComment_other)
  show "logs (snd (updateComment cx i s d)) = logs d"
    using pre body assms by (simp add: updateComment_def Let_def createLog_unwritable)
next
  fix c
  assume pre: "findComment i d = Some c
              \<and> (userId c = uid (caller cx) \<or> role (caller cx) = ''admin'')"
  have k: "cid c = i" using pre findComment_Some by blast
  show "status (fst (deleteComment cx i d)) = 200"
    using pre by (auto simp: deleteComment_def Let_def reply_def)
  show "fst (deleteComment cx i d) = fst (deleteComment (cx\<lparr>logWritable := True\<rparr>) i d)"
    using pre by (auto simp: deleteComment_def Let_def)
  show del: "comments (snd (deleteComment cx i d)) = cascade [i] (comments d)"
    using pre k by (auto simp: deleteComment_def Let_def)
  show "findComment i (snd (deleteComment cx i d)) = None"
    by (simp add: findComment_def del find_cid_cascade)
  show "logs (snd (deleteComment cx i d)) = logs d"
    using pre assms by (auto simp: deleteComment_def Let_def createLog_unwritable)
qed

theorem audit_failure_not_propagated_witness:
  "\<not> logWritable (asking_unlogged alice 500)
   \<and> createLog (asking_unlogged alice 500) ''CREATE_COMMENT'' ''comment'' 4 None None 7 thread_db
       = (None, thread_db)
   \<and> status (fst (createComment (asking_unlogged alice 500) (on_project ''more'' None) thread_db)) = 201
   \<and> logs (snd (createComment (asking_unlogged alice 500) (on_project ''more'' None) thread_db))
       = logs thread_db
   \<and> status (fst (updateComment (asking_unlogged alice 500) 1 ''edited'' thread_db)) = 200
   \<and> comments (snd (updateComment (asking_unlogged alice 500) 1 ''edited'' thread_db))
       = setComment 1 ''edited'' (comments thread_db)
   \<and> findComment 1 (snd (updateComment (asking_unlogged alice 500) 1 ''edited'' thread_db))
       = Some (nice_work\<lparr>comment := ''edited''\<rparr>)
   \<and> status (fst (deleteComment (asking_unlogged alice 500) 1 thread_db)) = 200
   \<and> comments (snd (deleteComment (asking_unlogged alice 500) 1 thread_db))
       = cascade [1] (comments thread_db)
   \<and> findComment 1 (snd (deleteComment (asking_unlogged alice 500) 1 thread_db)) = None"
proof -
  let ?cx = "asking_unlogged alice 500"
  let ?rq = "on_project ''more'' None"
  have h: "\<not> logWritable ?cx" by (simp add: asking_unlogged_def)
  have p1: "rq_entityType ?rq \<in> set validEntityTypes \<and> 1 \<le> rq_entityId ?rq
            \<and> valid_comment_text (rq_comment ?rq)
            \<and> fst (findEntity (rq_entityType ?rq) (rq_entityId ?rq) thread_db)
            \<and> checkParent ?rq thread_db = None"
    by (simp add: on_project_def validEntityTypes_def valid_comment_text_def notEmpty_def
          is_space_def findEntity_def thread_db_def checkParent_def)
  have p2: "findComment 1 thread_db = Some nice_work \<and> userId nice_work = uid (caller ?cx)
            \<and> valid_comment_text ''edited''"
    by (simp add: thread_db_find_1 nice_work_def asking_unlogged_def alice_def
          valid_comment_text_def notEmpty_def is_space_def)
  have p3: "findComment 1 thread_db = Some nice_work
            \<and> (userId nice_work = uid (caller ?cx) \<or> role (caller ?cx) = ''admin'')"
    by (simp add: thread_db_find_1 nice_work_def asking_unlogged_def alice_def)
  note T = audit_failure_not_propagated [OF h, where d = thread_db and rq = ?rq and i = 1
             and s = "''edited''" and a = "''CREATE_COMMENT''" and e = "''comment''"
             and k = 4 and ov = None and nv = None and w = 7]
  from T h p1 p2 p3 show ?thesis by blast
qed

section \<open>The reply linkage\<close>

lemma parentOk_mono: "parentOk rows c \<Longrightarrow> set rows \<subseteq> set rows' \<Longrightarrow> parentOk rows' c"
  by (auto simp: parentOk_def split: option.splits)

lemma linked_append: "linked rows \<Longrightarrow> parentOk rows c \<Longrightarrow> linked (rows @ [c])"
  unfolding linked_def using parentOk_mono [of rows _ "rows @ [c]"] by auto

lemma parentOk_setComment: "parentOk (setComment i s rows) c = parentOk rows c"
proof -
  have "(\<exists>q \<in> set (setComment i s rows). cid q = p \<and> entityType q = e \<and> entityId q = k)
        = (\<exists>q \<in> set rows. cid q = p \<and> entityType q = e \<and> entityId q = k)" for p e k
    by (induction rows) (auto simp: setComment_def)
  then show ?thesis by (simp add: parentOk_def split: option.splits)
qed

lemma parentOk_comment_update [simp]: "parentOk rows (c\<lparr>comment := s\<rparr>) = parentOk rows c"
  by (simp add: parentOk_def split: option.splits)

lemma linked_setComment: "linked rows \<Longrightarrow> linked (setComment i s rows)"
  unfolding linked_def parentOk_setComment by (auto simp: setComment_def)

lemma cascade_linked:
  "\<forall>c \<in> set rows. cid c \<in> set ids \<or> parentOk rows c \<Longrightarrow> linked (cascade ids rows)"
proof (induction ids rows rule: cascade.induct)
  case (1 ids rows)
  show ?case
  proof (cases "\<exists>r \<in> set rows. cid r \<in> set ids")
    case False
    with "1.prems" show ?thesis by (auto simp: cascade_done linked_def)
  next
    case True
    let ?ids' = "map cid (filter (\<lambda>r. cid r \<notin> set ids \<and> refersTo ids r) rows)"
    let ?rows' = "filter (\<lambda>r. cid r \<notin> set ids) rows"
    have "cid c \<in> set ?ids' \<or> parentOk ?rows' c" if c: "c \<in> set ?rows'" for c
    proof (cases "refersTo ids c")
      case True
      with c show ?thesis by auto
    next
      case False
      from c "1.prems" have ok: "parentOk rows c" by auto
      with False have "parentOk ?rows' c"
        by (auto simp: parentOk_def refersTo_def split: option.splits)
      then show ?thesis ..
    qed
    then have "linked (cascade ?ids' ?rows')"
      using "1.IH" [OF True] by blast
    with True show ?thesis by (simp add: cascade_unfold)
  qed
qed

lemma checkParent_None_parentOk:
  assumes "checkParent rq d = None"
  shows "parentOk (comments d)
           \<lparr>cid = k, entityType = rq_entityType rq, entityId = rq_entityId rq, userId = u,
            comment = s, parentId = orNull (rq_parentId rq), createdAt = t\<rparr>"
proof (cases "orNull (rq_parentId rq)")
  case None
  then show ?thesis by (simp add: parentOk_def)
next
  case (Some p)
  then have p: "rq_parentId rq = Some p" "p \<noteq> 0"
    by (auto simp: orNull_def split: option.splits if_splits)
  with assms obtain q where q: "findComment p d = Some q"
      "entityType q = rq_entityType rq" "entityId q = rq_entityId rq"
    by (auto simp: checkParent_def split: option.splits if_splits)
  from q(1) have "cid q = p" "q \<in> set (comments d)" by (simp_all add: findComment_Some)
  with q Some show ?thesis by (auto simp: parentOk_def)
qed

lemma checkParent_status: "checkParent rq d = Some r \<Longrightarrow> status r \<noteq> 201"
  by (auto simp: checkParent_def reply_def split: option.splits if_splits)

text \<open>What a create does to the table: nothing, or one row appended.\<close>

lemma createComment_effect:
  "(comments (snd (createComment cx rq d)) = comments d
      \<and> nextCommentId (snd (createComment cx rq d)) = nextCommentId d
      \<and> status (fst (createComment cx rq d)) \<noteq> 201)
   \<or> (checkParent rq d = None
      \<and> comments (snd (createComment cx rq d)) =
          comments d @ [\<lparr>cid = nextCommentId d, entityType = rq_entityType rq,
                          entityId = rq_entityId rq, userId = uid (caller cx),
                          comment = rq_comment rq, parentId = orNull (rq_parentId rq),
                          createdAt = now cx\<rparr>]
      \<and> nextCommentId (snd (createComment cx rq d)) = nextCommentId d + 1
      \<and> status (fst (createComment cx rq d)) = 201)"
  by (auto simp: createComment_def persistComment_def Comment_create_def Let_def split_beta
        reply_def split: option.splits dest: checkParent_status)

lemma createComment_linked:
  "linked (comments d) \<Longrightarrow> linked (comments (snd (createComment cx rq d)))"
  using createComment_effect [of cx rq d]
  by (auto intro!: linked_append checkParent_None_parentOk)

lemma getEntityComments_comments [simp]:
  "comments (snd (getEntityComments ety eid d)) = comments d"
  by (simp add: getEntityComments_def Let_def split_beta)

lemma getEntityComments_nextCommentId [simp]:
  "nextCommentId (snd (getEntityComments ety eid d)) = nextCommentId d"
  by (simp add: getEntityComments_def Let_def split_beta)

lemma updateComment_effect:
  "comments (snd (updateComment cx i s d)) = comments d
   \<or> comments (snd (updateComment cx i s d)) = setComment i s (comments d)"
  by (auto simp: updateComment_def Let_def dest: findComment_Some split: option.splits)

lemma updateComment_nextCommentId [simp]:
  "nextCommentId (snd (updateComment cx i s d)) = nextCommentId d"
  by (auto simp: updateComment_def Let_def split: option.splits)

lemma deleteComment_effect:
  "comments (snd (deleteComment cx i d)) = comments d
   \<or> comments (snd (deleteComment cx i d)) = cascade [i] (comments d)"
  by (auto simp: deleteComment_def Let_def dest: findComment_Some split: option.splits)

lemma deleteComment_nextCommentId [simp]:
  "nextCommentId (snd (deleteComment cx i d)) = nextCommentId d"
  by (auto simp: deleteComment_def Let_def split: option.splits)

lemma reachable_linked: "reachable d \<Longrightarrow> linked (comments d)"
proof (induction rule: reachable.induct)
  case (initial d)
  then show ?case by (simp add: linked_def)
next
  case (created d cx rq)
  from created.IH show ?case by (rule createComment_linked)
next
  case (listed d ety eid)
  then show ?case by simp
next
  case (updated d cx i s)
  then show ?case using updateComment_effect [of cx i s d] by (auto intro: linked_setComment)
next
  case (deleted d cx i)
  have "linked (cascade [i] (comments d))"
    using deleted.IH by (intro cascade_linked) (simp add: linked_def)
  then show ?case using deleted.IH deleteComment_effect [of cx i d] by auto
next
  case (elsewhere d d')
  then show ?case by simp
qed

lemma setComment_cids [simp]: "map cid (setComment i s rows) = map cid rows"
  by (induction rows) (simp_all add: setComment_def)

lemma filter_cids_distinct: "distinct (map cid rows) \<Longrightarrow> distinct (map cid (filter P rows))"
  by (induction rows) auto

lemma cascade_is_filter: "\<exists>P. cascade ids rows = filter P rows"
proof (induction ids rows rule: cascade.induct)
  case (1 ids rows)
  show ?case
  proof (cases "\<exists>r \<in> set rows. cid r \<in> set ids")
    case False
    then have "cascade ids rows = filter (\<lambda>_. True) rows" by (simp add: cascade_done)
    then show ?thesis by blast
  next
    case True
    from "1.IH" [OF True] obtain P where
      "cascade (map cid (filter (\<lambda>r. cid r \<notin> set ids \<and> refersTo ids r) rows))
               (filter (\<lambda>r. cid r \<notin> set ids) rows) = filter P (filter (\<lambda>r. cid r \<notin> set ids) rows)"
      by blast
    with True have "cascade ids rows = filter (\<lambda>r. cid r \<notin> set ids \<and> P r) rows"
      by (simp add: cascade_unfold)
    then show ?thesis by blast
  qed
qed

lemma reachable_freshIds: "reachable d \<Longrightarrow> freshIds d"
proof (induction rule: reachable.induct)
  case (initial d)
  then show ?case by (simp add: freshIds_def)
next
  case (created d cx rq)
  then show ?case using createComment_effect [of cx rq d] by (fastforce simp: freshIds_def)
next
  case (listed d ety eid)
  then show ?case by (simp add: freshIds_def)
next
  case (updated d cx i s)
  have "\<forall>c \<in> set (setComment i s (comments d)). cid c < nextCommentId d"
    using updated.IH by (auto simp: freshIds_def setComment_def)
  then show ?case using updated.IH updateComment_effect [of cx i s d]
    by (auto simp: freshIds_def)
next
  case (deleted d cx i)
  obtain P where "cascade [i] (comments d) = filter P (comments d)"
    using cascade_is_filter by blast
  then show ?case using deleted.IH deleteComment_effect [of cx i d]
    by (auto simp: freshIds_def filter_cids_distinct)
next
  case (elsewhere d d')
  then show ?case by (simp add: freshIds_def)
qed

text \<open>
  C1, as amended. For a create request whose required fields are present, whose entity kind
  is valid and whose \<open>parentId\<close> is a non-zero number: when no comment has that id the
  answer is a 404 (for the parent, or for the entity when that is missing too); when the
  entity exists and the parent is on another entity the answer is the 400 for the
  cross-entity reply; in both cases the \<open>comments\<close> table is left as it was. A
  \<open>parentId\<close> of zero is read as no \<open>parentId\<close>, and a request with a missing field
  or an invalid kind is answered with a 400 before the parent is looked at. And in every
  store the controller can reach, a comment with a parent has that parent in the table, on
  the same \<open>(entityType, entityId)\<close>.
\<close>

theorem reply_linkage:
  "(rq_entityType rq \<noteq> [] \<and> rq_entityId rq \<noteq> 0 \<and> rq_comment rq \<noteq> []
      \<and> rq_entityType rq \<in> set validEntityTypes \<and> rq_parentId rq = Some p \<and> p \<noteq> 0 \<longrightarrow>
      (findComment p d = None \<longrightarrow>
         fst (createComment cx rq d) =
           reply 404 (if fst (findEntity (rq_entityType rq) (rq_entityId rq) d)
                      then ParentNotFound else EntityNotFound)
         \<and> comments (snd (createComment cx rq d)) = comments d)
    \<and> (\<forall>q. findComment p d = Some q
             \<and> fst (findEntity (rq_entityType rq) (rq_entityId rq) d)
             \<and> (entityType q \<noteq> rq_entityType rq \<or> entityId q \<noteq> rq_entityId rq) \<longrightarrow>
         fst (createComment cx rq d) = reply 400 ParentOtherEntity
         \<and> comments (snd (createComment cx rq d)) = comments d))
   \<and> createComment cx (rq\<lparr>rq_parentId := Some 0\<rparr>) d = createComment cx (rq\<lparr>rq_parentId := None\<rparr>) d
   \<and> (rq_entityType rq = [] \<or> rq_entityId rq = 0 \<or> rq_comment rq = []
        \<or> rq_entityType rq \<notin> set validEntityTypes \<longrightarrow>
      status (fst (createComment cx rq d)) = 400 \<and> snd (createComment cx rq d) = d)
   \<and> (reachable d \<longrightarrow> linked (comments d))"
proof (intro conjI impI allI)
  assume a: "rq_entityType rq \<noteq> [] \<and> rq_entityId rq \<noteq> 0 \<and> rq_comment rq \<noteq> []
      \<and> rq_entityType rq \<in> set validEntityTypes \<and> rq_parentId rq = Some p \<and> p \<noteq> 0"
    and b: "findComment p d = None"
  from a b show "fst (createComment cx rq d) =
           reply 404 (if fst (findEntity (rq_entityType rq) (rq_entityId rq) d)
                      then ParentNotFound else EntityNotFound)"
    by (simp add: createComment_def checkParent_def split_beta)
  from a b show "comments (snd (createComment cx rq d)) = comments d"
    by (simp add: createComment_def checkParent_def split_beta)
next
  fix q
  assume a: "rq_entityType rq \<noteq> [] \<and> rq_entityId rq \<noteq> 0 \<and> rq_comment rq \<noteq> []
      \<and> rq_entityType rq \<in> set validEntityTypes \<and> rq_parentId rq = Some p \<and> p \<noteq> 0"
    and b: "findComment p d = Some q
             \<and> fst (findEntity (rq_entityType rq) (rq_entityId rq) d)
             \<and> (entityType q \<noteq> rq_entityType rq \<or> entityId q \<noteq> rq_entityId rq)"
  from a b show "fst (createComment cx rq d) = reply 400 ParentOtherEntity"
    by (auto simp: createComment_def checkParent_def split_beta)
  from a b show "comments (snd (createComment cx rq d)) = comments d"
    by (auto simp: createComment_def checkParent_def split_beta)
next
  show "createComment cx (rq\<lparr>rq_parentId := Some 0\<rparr>) d = createComment cx (rq\<lparr>rq_parentId := None\<rparr>) d"
  proof -
    have "checkParent (rq\<lparr>rq_parentId := Some 0\<rparr>) d' = checkParent (rq\<lparr>rq_parentId := None\<rparr>) d'"
      for d' by (simp add: checkParent_def)
    moreover have "persistComment cx (rq\<lparr>rq_parentId := Some 0\<rparr>) d'
                   = persistComment cx (rq\<lparr>rq_parentId := None\<rparr>) d'" for d'
      by (simp add: persistComment_def orNull_def)
    ultimately show ?thesis by (simp add: createComment_def split_beta split: option.splits)
  qed
next
  assume e: "rq_entityType rq = [] \<or> rq_entityId rq = 0 \<or> rq_comment rq = []
        \<or> rq_entityType rq \<notin> set validEntityTypes"
  then show "status (fst (createComment cx rq d)) = 400"
    by (auto simp: createComment_def reply_def)
  from e show "snd (createComment cx rq d) = d"
    by (auto simp: createComment_def)
next
  assume "reachable d"
  then show "linked (comments d)" by (rule reachable_linked)
qed

lemma thread_db_reachable: "reachable thread_db"
proof -
  let ?d1 = "snd (createComment (asking alice 100) (on_project ''nice work'' None) blank_db)"
  let ?d2 = "snd (createComment (asking bob 200) (on_project ''thanks'' (Some 1)) ?d1)"
  let ?d3 = "snd (createComment (asking alice 300) (on_project ''anytime'' (Some 2)) ?d2)"
  have "reachable blank_db" by (rule reachable.initial) (simp add: blank_db_def)
  then have "reachable ?d3" by (intro reachable.created)
  moreover have "comments thread_db = comments ?d3 \<and> nextCommentId thread_db = nextCommentId ?d3"
    by (simp add: thread_db_def nice_work_def thanks_def anytime_def blank_db_def asking_def
          on_project_def alice_def bob_def createComment_def persistComment_def
          Comment_create_def checkParent_def findEntity_def findComment_def orNull_def
          validEntityTypes_def valid_comment_text_def notEmpty_def is_space_def Let_def
          createLog_def Log_create_def)
  ultimately show ?thesis by (auto intro: reachable.elsewhere)
qed

lemma on_task_fields:
  "rq_entityType (on_task s par) \<noteq> [] \<and> rq_entityId (on_task s par) \<noteq> 0
   \<and> (s \<noteq> [] \<longrightarrow> rq_comment (on_task s par) \<noteq> [])
   \<and> rq_entityType (on_task s par) \<in> set validEntityTypes
   \<and> rq_parentId (on_task s par) = par
   \<and> fst (findEntity (rq_entityType (on_task s par)) (rq_entityId (on_task s par)) thread_db)"
  by (simp add: on_task_def validEntityTypes_def findEntity_def thread_db_def)

theorem reply_linkage_witness:
  "findComment 99 thread_db = None
   \<and> fst (createComment (asking bob 400) (on_task ''hi'' (Some 99)) thread_db)
       = reply 404 ParentNotFound
   \<and> comments (snd (createComment (asking bob 400) (on_task ''hi'' (Some 99)) thread_db))
       = comments thread_db
   \<and> findComment 1 thread_db = Some nice_work
   \<and> entityType nice_work \<noteq> rq_entityType (on_task ''hi'' (Some 1))
   \<and> fst (createComment (asking bob 400) (on_task ''hi'' (Some 1)) thread_db)
       = reply 400 ParentOtherEntity
   \<and> comments (snd (createComment (asking bob 400) (on_task ''hi'' (Some 1)) thread_db))
       = comments thread_db
   \<and> status (fst (createComment (asking bob 400) (on_task [] (Some 1)) thread_db)) = 400
   \<and> reachable thread_db
   \<and> linked (comments thread_db)"
proof -
  have none: "findComment 99 thread_db = None"
    by (simp add: findComment_def thread_db_def nice_work_def thanks_def anytime_def)
  have other: "entityType nice_work \<noteq> rq_entityType (on_task ''hi'' (Some 1))"
    by (simp add: nice_work_def on_task_def)
  note F1 = on_task_fields [of "''hi''" "Some 99"]
  note F2 = on_task_fields [of "''hi''" "Some 1"]
  note T1 = reply_linkage [of "on_task ''hi'' (Some 99)" 99 thread_db "asking bob 400"]
  note T2 = reply_linkage [of "on_task ''hi'' (Some 1)" 1 thread_db "asking bob 400"]
  have a: "fst (createComment (asking bob 400) (on_task ''hi'' (Some 99)) thread_db)
             = reply 404 ParentNotFound
           \<and> comments (snd (createComment (asking bob 400) (on_task ''hi'' (Some 99)) thread_db))
             = comments thread_db"
    using T1 F1 none by simp
  have b: "fst (createComment (asking bob 400) (on_task ''hi'' (Some 1)) thread_db)
             = reply 400 ParentOtherEntity
           \<and> comments (snd (createComment (asking bob 400) (on_task ''hi'' (Some 1)) thread_db))
             = comments thread_db"
    using T2 F2 thread_db_find_1 other by simp
  have c: "linked (comments thread_db)"
    using T1 thread_db_reachable by blast
  have "rq_comment (on_task [] (Some 1)) = []" by (simp add: on_task_def)
  with reply_linkage [of "on_task [] (Some 1)" 1 thread_db "asking bob 400"]
  have e: "status (fst (createComment (asking bob 400) (on_task [] (Some 1)) thread_db)) = 400"
    by blast
  from none a thread_db_find_1 other b e thread_db_reachable c show ?thesis
    by (intro conjI) simp_all
qed

text \<open>
  As the specification words it, the property fails in two ways. A \<open>parentId\<close> of zero names no comment, and the
  create succeeds with a top-level comment. And a request that names a missing parent and
  an invalid entity kind is refused for the kind, with a 400.
\<close>

theorem reply_linkage_counterexample:
  "rq_parentId (on_project ''hi'' (Some 0)) = Some 0
   \<and> findComment 0 blank_db = None
   \<and> status (fst (createComment (asking alice 100) (on_project ''hi'' (Some 0)) blank_db)) = 201
   \<and> comments (snd (createComment (asking alice 100) (on_project ''hi'' (Some 0)) blank_db))
       = [\<lparr>cid = 1, entityType = ''project'', entityId = 1, userId = 7, comment = ''hi'',
           parentId = None, createdAt = 100\<rparr>]
   \<and> findComment 99 blank_db = None
   \<and> fst (createComment (asking alice 100)
        \<lparr>rq_entityType = ''folder'', rq_entityId = 1, rq_comment = ''hi'', rq_parentId = Some 99\<rparr>
        blank_db) = reply 400 EntityTypeInvalid"
  by (simp add: blank_db_def asking_def on_project_def alice_def createComment_def
        persistComment_def Comment_create_def checkParent_def findEntity_def findComment_def
        orNull_def validEntityTypes_def valid_comment_text_def notEmpty_def is_space_def Let_def
        createLog_def Log_create_def)

section \<open>Listing\<close>

lemma getEntityComments_found:
  assumes "ety \<in> set validEntityTypes" and "fst (findEntity ety eid d)"
  shows "fst (getEntityComments ety eid d) =
           \<lparr>status = 200, success = True, message = NoMessage,
            data = Listing (map (\<lambda>c. \<lparr>root = c, replies = repliesOf c (comments d)\<rparr>)
                              (topLevelOf ety eid (comments d)))
                     (countOf ety eid (comments d))
                     (length (topLevelOf ety eid (comments d)))\<rparr>"
  using assms by (simp add: getEntityComments_def Let_def split_beta)

lemma getEntityComments_Listing:
  assumes "data (fst (getEntityComments ety eid d)) = Listing ths tot n"
  shows "ths = map (\<lambda>c. \<lparr>root = c, replies = repliesOf c (comments d)\<rparr>)
                 (topLevelOf ety eid (comments d))
       \<and> tot = countOf ety eid (comments d) \<and> n = length ths"
  using assms
  by (auto simp: getEntityComments_def Let_def split_beta reply_def split: if_splits)

lemma topLevelOf_sorted:
  "sorted_wrt (\<lambda>a b. createdAt a \<ge> createdAt b) (topLevelOf ety eid rows)"
proof -
  have "sorted (map (\<lambda>c. - createdAt c) (topLevelOf ety eid rows))"
    unfolding topLevelOf_def by (rule sorted_sort_key)
  then show ?thesis by (simp add: sorted_map)
qed

lemma topLevelOf_mset:
  "mset (topLevelOf ety eid rows) =
     mset (filter (\<lambda>c. entityType c = ety \<and> entityId c = eid \<and> parentId c = None) rows)"
  by (simp add: topLevelOf_def)

lemma roots_of_threads: "map root (map (\<lambda>c. \<lparr>root = c, replies = f c\<rparr>) xs) = xs"
  by (induction xs) simp_all

text \<open>
  What the listing does for an entity of a valid kind that exists: the top-level comments
  of the entity, all of them and no other, the later-created before the earlier-created,
  each with the rows whose parent it is, in the order of the table.
\<close>

lemma listing_top_level_order:
  assumes "ety \<in> set validEntityTypes" and "fst (findEntity ety eid d)"
  shows "\<exists>ths. fst (getEntityComments ety eid d) =
                 \<lparr>status = 200, success = True, message = NoMessage,
                  data = Listing ths (countOf ety eid (comments d)) (length ths)\<rparr>
           \<and> sorted_wrt (\<lambda>a b. createdAt a \<ge> createdAt b) (map root ths)
           \<and> mset (map root ths) =
               mset (filter (\<lambda>c. entityType c = ety \<and> entityId c = eid \<and> parentId c = None)
                      (comments d))
           \<and> (\<forall>th \<in> set ths.
                 replies th = filter (\<lambda>r. parentId r = Some (cid (root th))) (comments d))"
proof -
  let ?ths = "map (\<lambda>c. \<lparr>root = c, replies = repliesOf c (comments d)\<rparr>)
                 (topLevelOf ety eid (comments d))"
  have "fst (getEntityComments ety eid d) =
                 \<lparr>status = 200, success = True, message = NoMessage,
                  data = Listing ?ths (countOf ety eid (comments d)) (length ?ths)\<rparr>"
    using getEntityComments_found [OF assms] by simp
  moreover have "sorted_wrt (\<lambda>a b. createdAt a \<ge> createdAt b) (map root ?ths)"
    by (simp only: roots_of_threads topLevelOf_sorted)
  moreover have "mset (map root ?ths) =
               mset (filter (\<lambda>c. entityType c = ety \<and> entityId c = eid \<and> parentId c = None)
                      (comments d))"
    by (simp only: roots_of_threads topLevelOf_mset)
  moreover have "\<forall>th \<in> set ?ths.
                 replies th = filter (\<lambda>r. parentId r = Some (cid (root th))) (comments d)"
    by (auto simp: repliesOf_def)
  ultimately show ?thesis by blast
qed



section \<open>Counting rows\<close>

lemma length_filter_mono:
  "(\<And>x. x \<in> set xs \<Longrightarrow> P x \<Longrightarrow> Q x) \<Longrightarrow> length (filter P xs) \<le> length (filter Q xs)"
  by (induction xs) auto

lemma length_filter_strict:
  "c \<in> set xs \<Longrightarrow> Q c \<Longrightarrow> \<not> P c \<Longrightarrow> (\<And>x. x \<in> set xs \<Longrightarrow> P x \<Longrightarrow> Q x)
   \<Longrightarrow> length (filter P xs) < length (filter Q xs)"
proof (induction xs)
  case Nil
  then show ?case by simp
next
  case (Cons x xs)
  have le: "length (filter P xs) \<le> length (filter Q xs)"
    using Cons.prems(4) by (intro length_filter_mono) auto
  show ?case
  proof (cases "c = x")
    case True
    with Cons.prems le show ?thesis by auto
  next
    case False
    with Cons.prems have "c \<in> set xs" by simp
    then have "length (filter P xs) < length (filter Q xs)"
      using Cons.IH Cons.prems by auto
    with Cons.prems(4) [of x] show ?thesis by auto
  qed
qed

lemma length_filter_disj:
  "(\<And>x. x \<in> set xs \<Longrightarrow> \<not> (P x \<and> Q x))
   \<Longrightarrow> length (filter (\<lambda>x. P x \<or> Q x) xs) = length (filter P xs) + length (filter Q xs)"
  by (induction xs) auto

lemma sum_replies:
  "distinct (map cid ts) \<Longrightarrow>
   sum_list (map (\<lambda>t. length (filter (\<lambda>r. parentId r = Some (cid t)) rows)) ts)
     = length (filter (\<lambda>r. \<exists>t \<in> set ts. parentId r = Some (cid t)) rows)"
proof (induction ts)
  case Nil
  then show ?case by simp
next
  case (Cons t ts)
  have "length (filter (\<lambda>r. parentId r = Some (cid t) \<or> (\<exists>t' \<in> set ts. parentId r = Some (cid t'))) rows)
        = length (filter (\<lambda>r. parentId r = Some (cid t)) rows)
          + length (filter (\<lambda>r. \<exists>t' \<in> set ts. parentId r = Some (cid t')) rows)"
    using Cons.prems by (intro length_filter_disj) auto
  with Cons show ?case by simp
qed

lemma linked_parent:
  assumes "linked rows" and "r \<in> set rows" and "parentId r = Some p"
  shows "\<exists>q \<in> set rows. cid q = p \<and> entityType q = entityType r \<and> entityId q = entityId r"
proof -
  from assms(1,2) have "parentOk rows r" by (simp add: linked_def)
  with assms(3) show ?thesis by (simp add: parentOk_def)
qed

lemma same_cid_same_row:
  "distinct (map cid rows) \<Longrightarrow> a \<in> set rows \<Longrightarrow> b \<in> set rows \<Longrightarrow> cid a = cid b \<Longrightarrow> a = b"
  by (simp add: distinct_map inj_on_def)

lemma topLevelOf_set:
  "set (topLevelOf ety eid rows) =
     {c \<in> set rows. entityType c = ety \<and> entityId c = eid \<and> parentId c = None}"
  by (auto simp: topLevelOf_def)

lemma topLevelOf_distinct: "distinct (map cid rows) \<Longrightarrow> distinct (map cid (topLevelOf ety eid rows))"
proof -
  assume d: "distinct (map cid rows)"
  let ?f = "filter (\<lambda>c. entityType c = ety \<and> entityId c = eid \<and> parentId c = None) rows"
  have "mset (map cid (topLevelOf ety eid rows)) = mset (map cid ?f)"
    by (simp add: topLevelOf_def)
  moreover have "distinct (map cid ?f)" using d by (rule filter_cids_distinct)
  ultimately show ?thesis using mset_eq_imp_distinct_iff by blast
qed

lemma visible_threads:
  "visible (map (\<lambda>c. \<lparr>root = c, replies = repliesOf c rows\<rparr>) ts)
     = length ts + sum_list (map (\<lambda>t. length (filter (\<lambda>r. parentId r = Some (cid t)) rows)) ts)"
  by (simp add: visible_def repliesOf_def comp_def)

text \<open>
  With distinct keys and linked replies, the comments a listing shows are rows of the
  entity, and a row whose parent is itself a reply is not among them.
\<close>

lemma visible_less_count:
  assumes dist: "distinct (map cid rows)" and lk: "linked rows"
    and c: "c \<in> set rows" "parentId c = Some p"
    and q: "q \<in> set rows" "cid q = p" "parentId q \<noteq> None"
  shows "visible (map (\<lambda>t. \<lparr>root = t, replies = repliesOf t rows\<rparr>)
                      (topLevelOf (entityType c) (entityId c) rows))
           < countOf (entityType c) (entityId c) rows"
proof -
  let ?E = "\<lambda>r. entityType r = entityType c \<and> entityId r = entityId c"
  let ?A = "\<lambda>r. ?E r \<and> parentId r = None"
  let ?ts = "topLevelOf (entityType c) (entityId c) rows"
  let ?B = "\<lambda>r. \<exists>t \<in> set ?ts. parentId r = Some (cid t)"
  have ts: "set ?ts = {r \<in> set rows. ?A r}" by (simp add: topLevelOf_set)
  have len: "length ?ts = length (filter ?A rows)" by (simp add: topLevelOf_def)
  have "visible (map (\<lambda>t. \<lparr>root = t, replies = repliesOf t rows\<rparr>) ?ts)
          = length (filter ?A rows) + length (filter ?B rows)"
    using sum_replies [where ts = ?ts and rows = rows, OF topLevelOf_distinct [OF dist]]
    by (simp only: visible_threads len)
  also have "\<dots> = length (filter (\<lambda>r. ?A r \<or> ?B r) rows)"
    by (rule length_filter_disj [symmetric]) auto
  also have "\<dots> < length (filter ?E rows)"
  proof (rule length_filter_strict [OF c(1)])
    show "?E c" by simp
    show "\<not> (?A c \<or> ?B c)"
    proof
      assume "?A c \<or> ?B c"
      with c(2) obtain t where t: "t \<in> set ?ts" "cid t = p" by auto
      with ts have "t \<in> set rows" "parentId t = None" by auto
      with same_cid_same_row [OF dist, of t q] t(2) q show False by auto
    qed
    fix r assume r: "r \<in> set rows" and ab: "?A r \<or> ?B r"
    show "?E r"
    proof (cases "?A r")
      case True
      then show ?thesis by simp
    next
      case False
      with ab obtain t where t: "t \<in> set ?ts" "parentId r = Some (cid t)" by auto
      from ts t(1) have t': "t \<in> set rows" "?E t" by auto
      from linked_parent [OF lk r t(2)] obtain q' where q': "q' \<in> set rows" "cid q' = cid t"
          "entityType q' = entityType r" "entityId q' = entityId r"
        by blast
      from same_cid_same_row [OF dist q'(1) t'(1) q'(2)] have "q' = t" .
      with q' t' show ?thesis by simp
    qed
  qed
  finally show ?thesis by (simp add: countOf_def)
qed

lemma createComment_success:
  assumes "rq_entityType rq \<in> set validEntityTypes" and "1 \<le> rq_entityId rq"
    and "valid_comment_text (rq_comment rq)"
    and "fst (findEntity (rq_entityType rq) (rq_entityId rq) d)"
    and "checkParent rq d = None"
  shows "status (fst (createComment cx rq d)) = 201
       \<and> comments (snd (createComment cx rq d)) =
           comments d @ [\<lparr>cid = nextCommentId d, entityType = rq_entityType rq,
                           entityId = rq_entityId rq, userId = uid (caller cx),
                           comment = rq_comment rq, parentId = orNull (rq_parentId rq),
                           createdAt = now cx\<rparr>]"
proof -
  have body: "rq_comment rq \<noteq> []" using assms(3) by (auto simp: valid_comment_text_def)
  have ty: "rq_entityType rq \<noteq> []" using assms(1) by (auto simp: validEntityTypes_def)
  show ?thesis
    using assms body ty
    by (simp add: createComment_def split_beta persistComment_def Comment_create_def Let_def)
qed

section \<open>Replies to replies\<close>

text \<open>
  C10. A create whose parent is itself a reply, on the entity of the request, is accepted:
  the answer is 201 and the row is appended with that parent. And in a store the controller
  can reach, a comment whose parent is a reply is in no thread of the listing of its
  entity, neither as top-level comment nor as reply, while the total of the listing is the
  number of rows of the entity, so the total is larger than the number of comments shown.
\<close>

theorem nested_reply_hidden_but_counted:
  "(rq_entityType rq \<in> set validEntityTypes \<and> 1 \<le> rq_entityId rq
      \<and> valid_comment_text (rq_comment rq)
      \<and> fst (findEntity (rq_entityType rq) (rq_entityId rq) d)
      \<and> rq_parentId rq = Some p \<and> p \<noteq> 0 \<and> findComment p d = Some q \<and> parentId q \<noteq> None
      \<and> entityType q = rq_entityType rq \<and> entityId q = rq_entityId rq \<longrightarrow>
    status (fst (createComment cx rq d)) = 201
    \<and> comments (snd (createComment cx rq d)) =
        comments d @ [\<lparr>cid = nextCommentId d, entityType = rq_entityType rq,
                        entityId = rq_entityId rq, userId = uid (caller cx),
                        comment = rq_comment rq, parentId = Some p, createdAt = now cx\<rparr>])
   \<and> (reachable d \<and> c \<in> set (comments d) \<and> parentId c = Some p'
      \<and> q' \<in> set (comments d) \<and> cid q' = p' \<and> parentId q' \<noteq> None
      \<and> data (fst (getEntityComments (entityType c) (entityId c) d)) = Listing ths tot n \<longrightarrow>
    (\<forall>th \<in> set ths. root th \<noteq> c \<and> c \<notin> set (replies th))
    \<and> tot = countOf (entityType c) (entityId c) (comments d)
    \<and> visible ths < tot)"
proof (intro conjI impI)
  assume a: "rq_entityType rq \<in> set validEntityTypes \<and> 1 \<le> rq_entityId rq
      \<and> valid_comment_text (rq_comment rq)
      \<and> fst (findEntity (rq_entityType rq) (rq_entityId rq) d)
      \<and> rq_parentId rq = Some p \<and> p \<noteq> 0 \<and> findComment p d = Some q \<and> parentId q \<noteq> None
      \<and> entityType q = rq_entityType rq \<and> entityId q = rq_entityId rq"
  then have cp: "checkParent rq d = None" by (simp add: checkParent_def)
  from a have par: "orNull (rq_parentId rq) = Some p" by (simp add: orNull_def)
  from a cp have s: "status (fst (createComment cx rq d)) = 201
       \<and> comments (snd (createComment cx rq d)) =
           comments d @ [\<lparr>cid = nextCommentId d, entityType = rq_entityType rq,
                           entityId = rq_entityId rq, userId = uid (caller cx),
                           comment = rq_comment rq, parentId = orNull (rq_parentId rq),
                           createdAt = now cx\<rparr>]"
    by (intro createComment_success) simp_all
  from s show "status (fst (createComment cx rq d)) = 201" by simp
  from s par show "comments (snd (createComment cx rq d)) =
        comments d @ [\<lparr>cid = nextCommentId d, entityType = rq_entityType rq,
                        entityId = rq_entityId rq, userId = uid (caller cx),
                        comment = rq_comment rq, parentId = Some p, createdAt = now cx\<rparr>]"
    by simp
next
  assume b: "reachable d \<and> c \<in> set (comments d) \<and> parentId c = Some p'
      \<and> q' \<in> set (comments d) \<and> cid q' = p' \<and> parentId q' \<noteq> None
      \<and> data (fst (getEntityComments (entityType c) (entityId c) d)) = Listing ths tot n"
  let ?rows = "comments d"
  let ?ts = "topLevelOf (entityType c) (entityId c) ?rows"
  from b have dist: "distinct (map cid ?rows)"
    using reachable_freshIds by (auto simp: freshIds_def)
  from b have lk: "linked ?rows" using reachable_linked by blast
  from b have L: "ths = map (\<lambda>t. \<lparr>root = t, replies = repliesOf t ?rows\<rparr>) ?ts"
      "tot = countOf (entityType c) (entityId c) ?rows"
    using getEntityComments_Listing by blast+
  show "\<forall>th \<in> set ths. root th \<noteq> c \<and> c \<notin> set (replies th)"
  proof
    fix th assume "th \<in> set ths"
    with L(1) obtain t where t: "t \<in> set ?ts" "root th = t" "replies th = repliesOf t ?rows"
      by auto
    from t(1) have t': "t \<in> set ?rows" "parentId t = None" by (auto simp: topLevelOf_set)
    have "t \<noteq> c" using t' b by auto
    moreover have "c \<notin> set (repliesOf t ?rows)"
    proof
      assume "c \<in> set (repliesOf t ?rows)"
      then have "parentId c = Some (cid t)" by (simp add: repliesOf_def)
      with b have "cid t = cid q'" by simp
      with same_cid_same_row [OF dist t'(1)] b have "t = q'" by blast
      with t'(2) b show False by simp
    qed
    ultimately show "root th \<noteq> c \<and> c \<notin> set (replies th)" using t by simp
  qed
  show "tot = countOf (entityType c) (entityId c) (comments d)" by (rule L(2))
  show "visible ths < tot"
    unfolding L using b by (intro visible_less_count [OF dist lk]) auto
qed

lemma thread_db_rows:
  "comments thread_db = [nice_work, thanks, anytime]"
  "cid nice_work = 1" "cid thanks = 2" "cid anytime = 3"
  "parentId nice_work = None" "parentId thanks = Some 1" "parentId anytime = Some 2"
  "entityType anytime = ''project''" "entityId anytime = 1"
  "entityType nice_work = ''project''" "entityId nice_work = 1"
  by (simp_all add: thread_db_def nice_work_def thanks_def anytime_def)

lemma thread_db_listing:
  "fst (getEntityComments ''project'' 1 thread_db) =
     \<lparr>status = 200, success = True, message = NoMessage,
      data = Listing [\<lparr>root = nice_work, replies = [thanks]\<rparr>] 3 1\<rparr>"
  by (simp add: getEntityComments_def validEntityTypes_def findEntity_def thread_db_def
        topLevelOf_def repliesOf_def countOf_def nice_work_def thanks_def anytime_def Let_def)

theorem nested_reply_hidden_but_counted_witness:
  "findComment 2 thread_db = Some thanks
   \<and> parentId thanks \<noteq> None
   \<and> status (fst (createComment (asking bob 400) (on_project ''deeper'' (Some 2)) thread_db)) = 201
   \<and> reachable thread_db
   \<and> anytime \<in> set (comments thread_db)
   \<and> parentId anytime = Some 2
   \<and> data (fst (getEntityComments ''project'' 1 thread_db))
       = Listing [\<lparr>root = nice_work, replies = [thanks]\<rparr>] 3 1
   \<and> visible [\<lparr>root = nice_work, replies = [thanks]\<rparr>] < 3"
proof -
  let ?rq = "on_project ''deeper'' (Some 2)"
  have f: "findComment 2 thread_db = Some thanks"
    by (simp add: findComment_def thread_db_def nice_work_def thanks_def)
  have a: "rq_entityType ?rq \<in> set validEntityTypes \<and> 1 \<le> rq_entityId ?rq
      \<and> valid_comment_text (rq_comment ?rq)
      \<and> fst (findEntity (rq_entityType ?rq) (rq_entityId ?rq) thread_db)
      \<and> rq_parentId ?rq = Some 2 \<and> (2::int) \<noteq> 0 \<and> findComment 2 thread_db = Some thanks
      \<and> parentId thanks \<noteq> None
      \<and> entityType thanks = rq_entityType ?rq \<and> entityId thanks = rq_entityId ?rq"
    using f
    by (simp add: on_project_def validEntityTypes_def valid_comment_text_def notEmpty_def
          is_space_def findEntity_def thread_db_def thanks_def)
  have b: "reachable thread_db \<and> anytime \<in> set (comments thread_db) \<and> parentId anytime = Some 2
      \<and> thanks \<in> set (comments thread_db) \<and> cid thanks = 2 \<and> parentId thanks \<noteq> None
      \<and> data (fst (getEntityComments (entityType anytime) (entityId anytime) thread_db))
          = Listing [\<lparr>root = nice_work, replies = [thanks]\<rparr>] 3 1"
    using thread_db_reachable by (simp add: thread_db_rows thread_db_listing)
  note T = nested_reply_hidden_but_counted [of ?rq thread_db 2 thanks "asking bob 400"
             anytime 2 thanks "[\<lparr>root = nice_work, replies = [thanks]\<rparr>]" 3 1]
  from T a have "status (fst (createComment (asking bob 400) ?rq thread_db)) = 201" by blast
  moreover from T b have "visible [\<lparr>root = nice_work, replies = [thanks]\<rparr>] < 3" by blast
  ultimately show ?thesis using f b by (simp add: thread_db_rows thread_db_listing)
qed

section \<open>Deleting a thread\<close>

lemma length_filter_split:
  "length (filter P xs) = length (filter (\<lambda>x. P x \<and> Q x) xs) + length (filter (\<lambda>x. P x \<and> \<not> Q x) xs)"
  by (induction xs) auto

lemma deleteComment_done:
  assumes "findComment i d = Some c" and "status (fst (deleteComment cx i d)) = 200"
  shows "comments (snd (deleteComment cx i d)) = cascade [i] (comments d)"
proof -
  have k: "cid c = i" using assms(1) by (simp add: findComment_Some)
  show ?thesis
    using assms k by (auto simp: deleteComment_def Let_def reply_def split: if_splits)
qed

lemma cascade_one:
  assumes "c \<in> set rows" and "cid c = i" and "r \<in> set (cascade [i] rows)"
  shows "cid r \<noteq> i \<and> parentId r \<noteq> Some i"
proof -
  have "cid r \<notin> set [i]" using assms(3) by (rule cascade_removes)
  moreover have "\<not> refersTo [i] r"
    using assms by (intro cascade_orphans [of rows "[i]" r]) auto
  ultimately show ?thesis by (auto simp: refersTo_def)
qed

text \<open>
  C7. After a successful delete of a top-level comment, no row has its key and no row has
  it as parent: the comment and its replies are gone, and nothing else was added. A listing
  of its entity then shows none of them, neither as top-level comment nor as reply, and
  its total is the number of rows of the entity that are left; in a store the controller
  can reach, that is at most the old count less one (the comment) and less the number of
  its replies.
\<close>

theorem delete_cascades:
  assumes "findComment i d = Some c" and "parentId c = None"
    and "status (fst (deleteComment cx i d)) = 200"
  shows "(\<forall>r \<in> set (comments (snd (deleteComment cx i d))). cid r \<noteq> i \<and> parentId r \<noteq> Some i)
       \<and> set (comments (snd (deleteComment cx i d))) \<subseteq> set (comments d)
       \<and> (\<forall>ths tot n.
            data (fst (getEntityComments (entityType c) (entityId c) (snd (deleteComment cx i d))))
              = Listing ths tot n \<longrightarrow>
            (\<forall>th \<in> set ths. cid (root th) \<noteq> i \<and> parentId (root th) \<noteq> Some i
                \<and> (\<forall>r \<in> set (replies th). cid r \<noteq> i \<and> parentId r \<noteq> Some i))
            \<and> tot = countOf (entityType c) (entityId c) (comments (snd (deleteComment cx i d))))
       \<and> (reachable d \<longrightarrow>
            countOf (entityType c) (entityId c) (comments (snd (deleteComment cx i d))) + 1
              + length (filter (\<lambda>r. parentId r = Some i) (comments d))
            \<le> countOf (entityType c) (entityId c) (comments d))"
proof -
  let ?rows = "comments d"
  let ?d' = "snd (deleteComment cx i d)"
  let ?rows' = "comments ?d'"
  let ?E = "\<lambda>r. entityType r = entityType c \<and> entityId r = entityId c"
  let ?A = "\<lambda>r. cid r \<noteq> i \<and> parentId r \<noteq> Some i"
  have c: "c \<in> set ?rows" "cid c = i" using assms(1) by (simp_all add: findComment_Some)
  have eq: "?rows' = cascade [i] ?rows" using assms(1,3) by (rule deleteComment_done)
  have gone: "?A r" if "r \<in> set ?rows'" for r
    using that cascade_one [OF c] by (simp add: eq)
  have sub: "set ?rows' \<subseteq> set ?rows" by (simp add: eq cascade_subset)
  have listing: "(\<forall>th \<in> set ths. ?A (root th) \<and> (\<forall>r \<in> set (replies th). ?A r))
                 \<and> tot = countOf (entityType c) (entityId c) ?rows'"
    if L: "data (fst (getEntityComments (entityType c) (entityId c) ?d')) = Listing ths tot n"
    for ths tot n
  proof -
    from getEntityComments_Listing [OF L] have
      ths: "ths = map (\<lambda>t. \<lparr>root = t, replies = repliesOf t ?rows'\<rparr>)
                     (topLevelOf (entityType c) (entityId c) ?rows')"
      and tot: "tot = countOf (entityType c) (entityId c) ?rows'"
      by simp_all
    have "?A (root th) \<and> (\<forall>r \<in> set (replies th). ?A r)" if "th \<in> set ths" for th
    proof -
      from that ths obtain t where t: "t \<in> set (topLevelOf (entityType c) (entityId c) ?rows')"
          "root th = t" "replies th = repliesOf t ?rows'"
        by auto
      from t(1) have "t \<in> set ?rows'" by (simp add: topLevelOf_set)
      moreover have "set (repliesOf t ?rows') \<subseteq> set ?rows'" by (auto simp: repliesOf_def)
      ultimately show ?thesis using gone t by auto
    qed
    with tot show ?thesis by blast
  qed
  have count: "countOf (entityType c) (entityId c) ?rows' + 1
                 + length (filter (\<lambda>r. parentId r = Some i) ?rows)
               \<le> countOf (entityType c) (entityId c) ?rows" if re: "reachable d"
  proof -
    from re have dist: "distinct (map cid ?rows)"
      using reachable_freshIds by (auto simp: freshIds_def)
    from re have lk: "linked ?rows" by (rule reachable_linked)
    obtain P where P: "cascade [i] ?rows = filter P ?rows" using cascade_is_filter by blast
    have "countOf (entityType c) (entityId c) ?rows' = length (filter (\<lambda>r. P r \<and> ?E r) ?rows)"
      by (simp add: countOf_def eq P conj_commute)
    also have "\<dots> \<le> length (filter (\<lambda>r. ?E r \<and> ?A r) ?rows)"
    proof (rule length_filter_mono)
      fix r assume "r \<in> set ?rows" and "P r \<and> ?E r"
      then have "r \<in> set ?rows'" by (simp add: eq P)
      with gone \<open>P r \<and> ?E r\<close> show "?E r \<and> ?A r" by blast
    qed
    finally have kept: "countOf (entityType c) (entityId c) ?rows'
                        \<le> length (filter (\<lambda>r. ?E r \<and> ?A r) ?rows)" .
    have inE: "?E r" if "r \<in> set ?rows" and "\<not> ?A r" for r
    proof (cases "cid r = i")
      case True
      with same_cid_same_row [OF dist that(1) c(1)] c(2) show ?thesis by simp
    next
      case False
      with that(2) have "parentId r = Some i" by simp
      from linked_parent [OF lk that(1) this] obtain q where q: "q \<in> set ?rows" "cid q = i"
          "entityType q = entityType r" "entityId q = entityId r"
        by blast
      with same_cid_same_row [OF dist q(1) c(1)] c(2) show ?thesis by simp
    qed
    have "1 + length (filter (\<lambda>r. parentId r = Some i) ?rows)
          \<le> length (filter (\<lambda>r. cid r = i) ?rows) + length (filter (\<lambda>r. parentId r = Some i) ?rows)"
    proof -
      have "filter (\<lambda>r. cid r = i) ?rows \<noteq> []" using c by (auto simp: filter_empty_conv)
      then have "1 \<le> length (filter (\<lambda>r. cid r = i) ?rows)"
        by (cases "filter (\<lambda>r. cid r = i) ?rows") simp_all
      then show ?thesis by simp
    qed
    also have "\<dots> = length (filter (\<lambda>r. cid r = i \<or> parentId r = Some i) ?rows)"
    proof (rule length_filter_disj [symmetric])
      fix r assume r: "r \<in> set ?rows"
      show "\<not> (cid r = i \<and> parentId r = Some i)"
      proof
        assume both: "cid r = i \<and> parentId r = Some i"
        with same_cid_same_row [OF dist r c(1)] c(2) have "r = c" by simp
        with both assms(2) show False by simp
      qed
    qed
    also have "\<dots> \<le> length (filter (\<lambda>r. ?E r \<and> \<not> ?A r) ?rows)"
      by (rule length_filter_mono) (use inE in auto)
    finally have lost: "1 + length (filter (\<lambda>r. parentId r = Some i) ?rows)
                        \<le> length (filter (\<lambda>r. ?E r \<and> \<not> ?A r) ?rows)" .
    have "countOf (entityType c) (entityId c) ?rows
          = length (filter (\<lambda>r. ?E r \<and> ?A r) ?rows) + length (filter (\<lambda>r. ?E r \<and> \<not> ?A r) ?rows)"
      unfolding countOf_def by (rule length_filter_split)
    with kept lost show ?thesis by linarith
  qed
  from gone sub listing count show ?thesis by blast
qed

lemma createLog_entities [simp]:
  "projects (snd (createLog cx a e i ov nv w d)) = projects d"
  "documents (snd (createLog cx a e i ov nv w d)) = documents d"
  "tasks (snd (createLog cx a e i ov nv w d)) = tasks d"
  "meetings (snd (createLog cx a e i ov nv w d)) = meetings d"
  using createLog_shape [of cx a e i ov nv w d] by (elim exE, simp)+

lemma deleteComment_entities:
  "projects (snd (deleteComment cx i d)) = projects d"
  "documents (snd (deleteComment cx i d)) = documents d"
  "tasks (snd (deleteComment cx i d)) = tasks d"
  "meetings (snd (deleteComment cx i d)) = meetings d"
  by (simp_all add: deleteComment_def Let_def split: option.splits)

lemma thread_db_deleted:
  "comments (snd (deleteComment (asking alice 400) 1 thread_db)) = []"
  by (simp add: deleteComment_def findComment_def thread_db_def nice_work_def thanks_def
        anytime_def asking_def alice_def Let_def cascade.simps refersTo_def)

theorem delete_cascades_witness:
  "findComment 1 thread_db = Some nice_work
   \<and> parentId nice_work = None
   \<and> status (fst (deleteComment (asking alice 400) 1 thread_db)) = 200
   \<and> reachable thread_db
   \<and> set (comments (snd (deleteComment (asking alice 400) 1 thread_db))) \<subseteq> set (comments thread_db)
   \<and> countOf ''project'' 1 (comments (snd (deleteComment (asking alice 400) 1 thread_db))) + 1
       + length (filter (\<lambda>r. parentId r = Some 1) (comments thread_db))
       \<le> countOf ''project'' 1 (comments thread_db)
   \<and> length (filter (\<lambda>r. parentId r = Some 1) (comments thread_db)) = 1
   \<and> comments (snd (deleteComment (asking alice 400) 1 thread_db)) = []
   \<and> data (fst (getEntityComments ''project'' 1 (snd (deleteComment (asking alice 400) 1 thread_db))))
       = Listing [] 0 0"
proof -
  let ?d' = "snd (deleteComment (asking alice 400) 1 thread_db)"
  have ok: "status (fst (deleteComment (asking alice 400) 1 thread_db)) = 200"
    by (simp add: deleteComment_def thread_db_find_1 nice_work_def asking_def alice_def
          Let_def reply_def)
  have top: "parentId nice_work = None" by (simp add: nice_work_def)
  note T = delete_cascades [OF thread_db_find_1 top ok]
  from T have sub: "set (comments ?d') \<subseteq> set (comments thread_db)" by blast
  from T thread_db_reachable have
    "countOf (entityType nice_work) (entityId nice_work) (comments ?d') + 1
       + length (filter (\<lambda>r. parentId r = Some 1) (comments thread_db))
       \<le> countOf (entityType nice_work) (entityId nice_work) (comments thread_db)"
    by blast
  then have cnt: "countOf ''project'' 1 (comments ?d') + 1
       + length (filter (\<lambda>r. parentId r = Some 1) (comments thread_db))
       \<le> countOf ''project'' 1 (comments thread_db)"
    by (simp add: thread_db_rows)
  have n: "length (filter (\<lambda>r. parentId r = Some 1) (comments thread_db)) = 1"
    by (simp add: thread_db_rows)
  have "fst (findEntity ''project'' 1 ?d')"
    by (simp add: findEntity_def deleteComment_entities thread_db_def)
  then have listing: "data (fst (getEntityComments ''project'' 1 ?d')) = Listing [] 0 0"
    by (subst getEntityComments_found)
       (simp_all add: validEntityTypes_def thread_db_deleted topLevelOf_def countOf_def)
  from thread_db_find_1 top ok thread_db_reachable sub cnt n thread_db_deleted listing
  show ?thesis by (intro conjI)
qed

section \<open>Deactivated accounts\<close>

text \<open>
  C9, as amended. A request whose token is accepted and names a user with
  \<open>isActive = false\<close> is answered by the middleware with the 403 for a deactivated
  account, not with the 401 that a missing token gets; the handler of the route is not run
  and the store is left as it was, on every protected route, the four comment routes among
  them.
\<close>

theorem inactive_user_rejected:
  assumes "bearerToken h = Some tok" and "tok \<noteq> []" and "verify tok = Decoded i"
    and "find (\<lambda>x. uid x = i) (users d) = Some u" and "\<not> isActive u"
  shows "protect verify h (users d) = Inl (reply 403 AccountDisabled)
       \<and> protected verify h handler d = (reply 403 AccountDisabled, d)
       \<and> route_createComment verify h t w rq d = (reply 403 AccountDisabled, d)
       \<and> route_getEntityComments verify h ety eid d = (reply 403 AccountDisabled, d)
       \<and> route_updateComment verify h t w k s d = (reply 403 AccountDisabled, d)
       \<and> route_deleteComment verify h t w k d = (reply 403 AccountDisabled, d)
       \<and> (\<forall>h'. bearerToken h' = None \<longrightarrow> protect verify h' (users d) = Inl (reply 401 TokenMissing))"
proof -
  have p: "protect verify h (users d) = Inl (reply 403 AccountDisabled)"
    using assms by (simp add: protect_def)
  then have g: "protected verify h f d = (reply 403 AccountDisabled, d)" for f
    by (simp add: protected_def)
  have m: "\<forall>h'. bearerToken h' = None \<longrightarrow> protect verify h' (users d) = Inl (reply 401 TokenMissing)"
    by (simp add: protect_def)
  from p g m show ?thesis
    by (simp add: route_createComment_def route_getEntityComments_def route_updateComment_def
          route_deleteComment_def)
qed

lemma carol_token:
  "bearerToken (Some ''Bearer carol'') = Some ''carol''"
  "verify_demo ''carol'' = Decoded 4"
  "find (\<lambda>x. uid x = 4) (users blank_db) = Some carol"
  "\<not> isActive carol"
  by (simp_all add: bearerToken_def verify_demo_def blank_db_def alice_def bob_def carol_def)

theorem inactive_user_rejected_witness:
  "bearerToken (Some ''Bearer carol'') = Some ''carol''
   \<and> verify_demo ''carol'' = Decoded 4
   \<and> find (\<lambda>x. uid x = 4) (users blank_db) = Some carol
   \<and> \<not> isActive carol
   \<and> route_createComment verify_demo (Some ''Bearer carol'') 100 True (on_project ''hi'' None) blank_db
       = (reply 403 AccountDisabled, blank_db)
   \<and> route_deleteComment verify_demo (Some ''Bearer carol'') 100 True 1 blank_db
       = (reply 403 AccountDisabled, blank_db)"
proof -
  have ne: "''carol'' \<noteq> []" by simp
  note T = inactive_user_rejected [where verify = verify_demo and h = "Some ''Bearer carol''"
             and tok = "''carol''" and i = 4 and d = blank_db and u = carol and t = 100
             and w = True and rq = "on_project ''hi'' None" and k = 1,
             OF carol_token(1) ne carol_token(2) carol_token(3) carol_token(4)]
  from T have
    "route_createComment verify_demo (Some ''Bearer carol'') 100 True (on_project ''hi'' None) blank_db
       = (reply 403 AccountDisabled, blank_db)"
    by blast
  moreover from T have
    "route_deleteComment verify_demo (Some ''Bearer carol'') 100 True 1 blank_db
       = (reply 403 AccountDisabled, blank_db)"
    by blast
  ultimately show ?thesis using carol_token by (intro conjI)
qed

text \<open>
  As the specification words it, the property fails: Carol's account is deactivated and her token is accepted; the
  answer is a 403, while a request with no token and a request with a rejected token get
  a 401.
\<close>

theorem inactive_user_counterexample:
  "verify_demo ''carol'' = Decoded 4
   \<and> carol \<in> set (users blank_db)
   \<and> uid carol = 4
   \<and> \<not> isActive carol
   \<and> fst (route_getEntityComments verify_demo (Some ''Bearer carol'') ''project'' 1 blank_db)
       = reply 403 AccountDisabled
   \<and> fst (route_getEntityComments verify_demo None ''project'' 1 blank_db)
       = reply 401 TokenMissing
   \<and> fst (route_getEntityComments verify_demo (Some ''Bearer forged'') ''project'' 1 blank_db)
       = reply 401 TokenInvalid
   \<and> status (reply 403 AccountDisabled) \<noteq> status (reply 401 TokenMissing)"
  by (simp add: route_getEntityComments_def protected_def protect_def bearerToken_def
        verify_demo_def blank_db_def alice_def bob_def carol_def reply_def)

section \<open>Invitations\<close>

lemma pendingFor_purgeResolved [simp]:
  "pendingFor t u (purgeResolved t' u' rows) = pendingFor t u rows"
  by (induction rows) (auto simp: pendingFor_def purgeResolved_def)

lemma pendingFor_append [simp]:
  "pendingFor t u (xs @ ys) = pendingFor t u xs @ pendingFor t u ys"
  by (simp add: pendingFor_def)

lemma pendingFor_empty: "\<not> hasPending t u d \<Longrightarrow> pendingFor t u (invitations d) = []"
  by (auto simp: hasPending_def pendingFor_def filter_empty_conv)

lemma pendingFor_setStatus:
  "st \<noteq> pending \<Longrightarrow> length (pendingFor t u (setStatus i st ts rows)) \<le> length (pendingFor t u rows)"
  by (induction rows) (auto simp: pendingFor_def setStatus_def)

lemma pendingFor_cancelStatus:
  "length (pendingFor t u (cancelStatus i rows)) \<le> length (pendingFor t u rows)"
  by (induction rows) (auto simp: pendingFor_def cancelStatus_def)

text \<open>What each request does to the \<open>team_invitations\<close> table.\<close>

lemma sendInvitation_effect:
  "snd (sendInvitation u rq d) = d
   \<or> (\<exists>tm row. resolveTeam (uid u) (rq_teamId rq) d = Inr tm
         \<and> \<not> hasPending (team_id tm) (targetUserId rq) d
         \<and> inv_teamId row = team_id tm \<and> inv_userId row = targetUserId rq
         \<and> invitations (snd (sendInvitation u rq d)) =
             purgeResolved (team_id tm) (targetUserId rq) (invitations d) @ [row])"
  by (auto simp: sendInvitation_def invitationChecks_def invitationWrites_def Let_def split: sum.splits option.splits)

lemma respondToInvitation_effect:
  "invitations (snd (respondToInvitation u t i resp d)) = invitations d
   \<or> (\<exists>k st. st \<noteq> pending
         \<and> invitations (snd (respondToInvitation u t i resp d)) = setStatus k st (Some t) (invitations d))"
  by (auto simp: respondToInvitation_def Let_def split: option.splits)

lemma cancelInvitation_effect:
  "invitations (snd (cancelInvitation u i d)) = invitations d
   \<or> (\<exists>k. invitations (snd (cancelInvitation u i d)) = cancelStatus k (invitations d))"
  by (auto simp: cancelInvitation_def Let_def split: option.splits)

lemma removeMember_invitations [simp]:
  "invitations (snd (removeMember u m d)) = invitations d"
  by (simp add: removeMember_def split: option.splits)

lemma removeTeamMember_invitations [simp]:
  "invitations (snd (removeTeamMember u t m d)) = invitations d"
  by (simp add: removeTeamMember_def split: option.splits)

lemma team_reachable_singlePending: "team_reachable d \<Longrightarrow> singlePending d"
proof (induction rule: team_reachable.induct)
  case (t_initial d)
  then show ?case by (simp add: singlePending_def pendingFor_def)
next
  case (t_sent d u rq)
  from sendInvitation_effect [of u rq d] show ?case
  proof
    assume "snd (sendInvitation u rq d) = d"
    with t_sent.IH show ?thesis by simp
  next
    assume "\<exists>tm row. resolveTeam (uid u) (rq_teamId rq) d = Inr tm
         \<and> \<not> hasPending (team_id tm) (targetUserId rq) d
         \<and> inv_teamId row = team_id tm \<and> inv_userId row = targetUserId rq
         \<and> invitations (snd (sendInvitation u rq d)) =
             purgeResolved (team_id tm) (targetUserId rq) (invitations d) @ [row]"
    then obtain tm :: team and row :: invitation where e: "\<not> hasPending (team_id tm) (targetUserId rq) d"
        "inv_teamId row = team_id tm" "inv_userId row = targetUserId rq"
        "invitations (snd (sendInvitation u rq d)) =
             purgeResolved (team_id tm) (targetUserId rq) (invitations d) @ [row]"
      by blast
    have "length (pendingFor t' u' (invitations (snd (sendInvitation u rq d)))) \<le> 1" for t' u'
    proof (cases "t' = team_id tm \<and> u' = targetUserId rq")
      case True
      with e show ?thesis by (simp add: pendingFor_empty) (simp add: pendingFor_def)
    next
      case False
      with e have "pendingFor t' u' [row] = []" by (auto simp: pendingFor_def)
      with e(4) t_sent.IH show ?thesis by (simp add: singlePending_def)
    qed
    then show ?thesis by (simp add: singlePending_def)
  qed
next
  case (t_responded d u t i resp)
  from respondToInvitation_effect [of u t i resp d] t_responded.IH show ?case
    unfolding singlePending_def
    by (elim disjE exE conjE) (simp, metis pendingFor_setStatus le_trans)
next
  case (t_cancelled d u i)
  from cancelInvitation_effect [of u i d] t_cancelled.IH show ?case
    unfolding singlePending_def
    by (elim disjE exE) (simp, metis pendingFor_cancelStatus le_trans)
next
  case (t_removed d u m)
  then show ?case by (simp add: singlePending_def)
next
  case (t_removed_from d u t m)
  then show ?case by (simp add: singlePending_def)
next
  case (t_elsewhere d us ts)
  then show ?case by (simp add: singlePending_def)
qed

lemma purgeResolved_pair:
  assumes "\<not> hasPending t u d"
  shows "filter (\<lambda>i. inv_teamId i = t \<and> inv_userId i = u) (purgeResolved t u (invitations d)) = []"
proof -
  have "inv_status i \<in> {declined, cancelled, accepted}"
    if "i \<in> set (invitations d)" and "inv_teamId i = t" and "inv_userId i = u" for i
    using that assms by (cases "inv_status i") (auto simp: hasPending_def)
  then show ?thesis by (auto simp: purgeResolved_def filter_empty_conv)
qed

lemma purgeResolved_others:
  "filter (\<lambda>i. \<not> (inv_teamId i = t \<and> inv_userId i = u)) (purgeResolved t u rows)
     = filter (\<lambda>i. \<not> (inv_teamId i = t \<and> inv_userId i = u)) rows"
  by (induction rows) (auto simp: purgeResolved_def)

lemma invitationChecks_passed:
  assumes "invitationChecks u rq d = Inr tm"
  shows "\<not> hasPending (team_id tm) (targetUserId rq) d"
  using assms
  by (auto simp: invitationChecks_def split: sum.splits option.splits if_splits)

lemma invitationWrites_pending:
  "pendingFor (team_id tm) (targetUserId rq) (invitations (snd (invitationWrites u rq tm d)))
     = pendingFor (team_id tm) (targetUserId rq) (invitations d)
       @ [\<lparr>inv_id = nextInvitationId d, inv_teamId = team_id tm,
            inv_userId = targetUserId rq, invitedBy = uid u,
            inv_role = orMember (rq_role rq), inv_status = pending,
            inv_message = rq_message rq, respondedAt = None\<rparr>]"
  by (simp add: invitationWrites_def Let_def) (simp add: pendingFor_def)

text \<open>
  C8, as amended. In every store the team controller can reach handling one request at a
  time, a pair of a team and a user has at most one pending invitation; when two invites
  of a pair overlap, both doing their reads before either writes, both pass the check for
  a pending invitation and the pair ends with two. An invite for a pair that has a pending
  invitation creates nothing and does not succeed; when the caller manages the team, the
  user is a consultant and is not a member, the answer is the 400 for the pending
  invitation. An invite for a pair with no pending invitation, by the manager, for a
  consultant who is not a member of the team, succeeds with 201: afterwards the only
  invitation of the pair is the new pending one (the declined, cancelled or accepted one
  is deleted) and the invitations of the other pairs are as before. While the user is a
  member of the team, as after an accepted invitation, the invite is refused with the 400
  for a member and the store is left as it was.
\<close>

theorem invitation_single_pending:
  "(team_reachable d \<longrightarrow> singlePending d)
   \<and> (invitationChecks u rq d = Inr tm \<longrightarrow>
      length (pendingFor (team_id tm) (targetUserId rq)
                (invitations (snd (invitationWrites u rq tm
                                     (snd (invitationWrites u rq tm d)))))) = 2)
   \<and> (resolveTeam (uid u) (rq_teamId rq) d = Inr tm
        \<and> hasPending (team_id tm) (targetUserId rq) d \<longrightarrow>
      status (fst (sendInvitation u rq d)) \<noteq> 201
      \<and> snd (sendInvitation u rq d) = d
      \<and> (\<forall>tu. find (\<lambda>x. uid x = targetUserId rq) (team_users d) = Some tu
               \<and> role tu = ''consultant''
               \<and> \<not> isMember (team_id tm) (targetUserId rq) d \<longrightarrow>
           fst (sendInvitation u rq d) = reply 400 AlreadyPending))
   \<and> (\<forall>tu. resolveTeam (uid u) (rq_teamId rq) d = Inr tm
            \<and> find (\<lambda>x. uid x = targetUserId rq) (team_users d) = Some tu
            \<and> role tu = ''consultant''
            \<and> \<not> isMember (team_id tm) (targetUserId rq) d
            \<and> \<not> hasPending (team_id tm) (targetUserId rq) d \<longrightarrow>
      status (fst (sendInvitation u rq d)) = 201
      \<and> filter (\<lambda>i. inv_teamId i = team_id tm \<and> inv_userId i = targetUserId rq)
           (invitations (snd (sendInvitation u rq d)))
          = [\<lparr>inv_id = nextInvitationId d, inv_teamId = team_id tm,
               inv_userId = targetUserId rq, invitedBy = uid u,
               inv_role = orMember (rq_role rq), inv_status = pending,
               inv_message = rq_message rq, respondedAt = None\<rparr>]
      \<and> filter (\<lambda>i. \<not> (inv_teamId i = team_id tm \<and> inv_userId i = targetUserId rq))
           (invitations (snd (sendInvitation u rq d)))
          = filter (\<lambda>i. \<not> (inv_teamId i = team_id tm \<and> inv_userId i = targetUserId rq))
              (invitations d))
   \<and> (\<forall>tu. resolveTeam (uid u) (rq_teamId rq) d = Inr tm
            \<and> find (\<lambda>x. uid x = targetUserId rq) (team_users d) = Some tu
            \<and> role tu = ''consultant''
            \<and> isMember (team_id tm) (targetUserId rq) d \<longrightarrow>
      sendInvitation u rq d = (reply 400 AlreadyMember, d))"
proof (intro conjI impI allI)
  assume "team_reachable d"
  then show "singlePending d" by (rule team_reachable_singlePending)
next
  assume "invitationChecks u rq d = Inr tm"
  then have "pendingFor (team_id tm) (targetUserId rq) (invitations d) = []"
    by (intro pendingFor_empty invitationChecks_passed)
  then show "length (pendingFor (team_id tm) (targetUserId rq)
                (invitations (snd (invitationWrites u rq tm
                                     (snd (invitationWrites u rq tm d)))))) = 2"
    by (simp add: invitationWrites_pending)
next
  assume a: "resolveTeam (uid u) (rq_teamId rq) d = Inr tm
        \<and> hasPending (team_id tm) (targetUserId rq) d"
  then show "status (fst (sendInvitation u rq d)) \<noteq> 201"
    by (auto simp: sendInvitation_def invitationChecks_def invitationWrites_def reply_def split: option.splits)
  from a show "snd (sendInvitation u rq d) = d"
    by (auto simp: sendInvitation_def invitationChecks_def invitationWrites_def split: option.splits)
  fix tu
  assume "find (\<lambda>x. uid x = targetUserId rq) (team_users d) = Some tu
               \<and> role tu = ''consultant''
               \<and> \<not> isMember (team_id tm) (targetUserId rq) d"
  with a show "fst (sendInvitation u rq d) = reply 400 AlreadyPending"
    by (simp add: sendInvitation_def invitationChecks_def invitationWrites_def)
next
  fix tu
  assume a: "resolveTeam (uid u) (rq_teamId rq) d = Inr tm
            \<and> find (\<lambda>x. uid x = targetUserId rq) (team_users d) = Some tu
            \<and> role tu = ''consultant''
            \<and> \<not> isMember (team_id tm) (targetUserId rq) d
            \<and> \<not> hasPending (team_id tm) (targetUserId rq) d"
  then show "status (fst (sendInvitation u rq d)) = 201"
    by (simp add: sendInvitation_def invitationChecks_def invitationWrites_def Let_def)
  from a have inv: "invitations (snd (sendInvitation u rq d)) =
      purgeResolved (team_id tm) (targetUserId rq) (invitations d)
        @ [\<lparr>inv_id = nextInvitationId d, inv_teamId = team_id tm,
               inv_userId = targetUserId rq, invitedBy = uid u,
               inv_role = orMember (rq_role rq), inv_status = pending,
               inv_message = rq_message rq, respondedAt = None\<rparr>]"
    by (simp add: sendInvitation_def invitationChecks_def invitationWrites_def Let_def)
  from a show "filter (\<lambda>i. inv_teamId i = team_id tm \<and> inv_userId i = targetUserId rq)
           (invitations (snd (sendInvitation u rq d)))
          = [\<lparr>inv_id = nextInvitationId d, inv_teamId = team_id tm,
               inv_userId = targetUserId rq, invitedBy = uid u,
               inv_role = orMember (rq_role rq), inv_status = pending,
               inv_message = rq_message rq, respondedAt = None\<rparr>]"
    by (simp add: inv purgeResolved_pair)
  show "filter (\<lambda>i. \<not> (inv_teamId i = team_id tm \<and> inv_userId i = targetUserId rq))
           (invitations (snd (sendInvitation u rq d)))
          = filter (\<lambda>i. \<not> (inv_teamId i = team_id tm \<and> inv_userId i = targetUserId rq))
              (invitations d)"
    using purgeResolved_others [of "team_id tm" "targetUserId rq" "invitations d"]
    by (simp add: inv)
next
  fix tu
  assume "resolveTeam (uid u) (rq_teamId rq) d = Inr tm
            \<and> find (\<lambda>x. uid x = targetUserId rq) (team_users d) = Some tu
            \<and> role tu = ''consultant''
            \<and> isMember (team_id tm) (targetUserId rq) d"
  then show "sendInvitation u rq d = (reply 400 AlreadyMember, d)"
    by (simp add: sendInvitation_def invitationChecks_def invitationWrites_def)
qed

lemma team_invited_tables:
  "team_users team_invited = team_users team_start"
  "teams team_invited = [\<lparr>team_id = 1, managerId = 10\<rparr>]"
  "members team_invited = []"
  "invitations team_invited =
     [\<lparr>inv_id = 1, inv_teamId = 1, inv_userId = 3, invitedBy = 10, inv_role = ''member'',
       inv_status = pending, inv_message = None, respondedAt = None\<rparr>]"
  "nextInvitationId team_invited = 2"
  by (simp_all add: team_invited_def sendInvitation_def invitationChecks_def invitationWrites_def resolveTeam_def orNull_def invite_bob_def
        team_start_def eve_def alice_def bob_def carol_def dana_def isMember_def hasPending_def
        purgeResolved_def orMember_def Let_def)

lemma team_declined_tables:
  "team_users team_declined = team_users team_start"
  "teams team_declined = [\<lparr>team_id = 1, managerId = 10\<rparr>]"
  "members team_declined = []"
  "invitations team_declined =
     [\<lparr>inv_id = 1, inv_teamId = 1, inv_userId = 3, invitedBy = 10, inv_role = ''member'',
       inv_status = declined, inv_message = None, respondedAt = Some 50\<rparr>]"
  "nextInvitationId team_declined = 2"
  by (simp_all add: team_declined_def respondToInvitation_def team_invited_tables bob_def
        setStatus_def Let_def)

lemma team_joined_tables:
  "team_users team_joined = team_users team_start"
  "teams team_joined = [\<lparr>team_id = 1, managerId = 10\<rparr>]"
  "members team_joined = [\<lparr>tm_teamId = 1, tm_userId = 3, tm_role = ''member''\<rparr>]"
  "invitations team_joined =
     [\<lparr>inv_id = 1, inv_teamId = 1, inv_userId = 3, invitedBy = 10, inv_role = ''member'',
       inv_status = accepted, inv_message = None, respondedAt = Some 50\<rparr>]"
  "nextInvitationId team_joined = 2"
  by (simp_all add: team_joined_def respondToInvitation_def team_invited_tables bob_def
        setStatus_def isMember_def Let_def)

lemma invite_bob_fields:
  "targetUserId invite_bob = 3" "rq_teamId invite_bob = Some 1"
  "rq_role invite_bob = None" "rq_message invite_bob = None" "uid eve = 10"
  by (simp_all add: invite_bob_def eve_def)

lemma eve_team:
  "resolveTeam 10 (Some 1) team_invited = Inr \<lparr>team_id = 1, managerId = 10\<rparr>"
  "resolveTeam 10 (Some 1) team_declined = Inr \<lparr>team_id = 1, managerId = 10\<rparr>"
  "resolveTeam 10 (Some 1) team_joined = Inr \<lparr>team_id = 1, managerId = 10\<rparr>"
  by (simp_all add: resolveTeam_def orNull_def team_invited_tables
        team_declined_tables team_joined_tables)

lemma bob_found:
  "find (\<lambda>x. uid x = 3) (team_users team_start) = Some bob"
  "role bob = ''consultant''"
  by (simp_all add: team_start_def alice_def bob_def)

lemma team_scenario_reachable:
  "team_reachable team_invited" "team_reachable team_declined" "team_reachable team_joined"
proof -
  have "team_reachable team_start" by (rule team_reachable.t_initial) (simp_all add: team_start_def)
  then show i: "team_reachable team_invited"
    unfolding team_invited_def by (rule team_reachable.t_sent)
  from i show "team_reachable team_declined"
    unfolding team_declined_def by (rule team_reachable.t_responded)
  from i show "team_reachable team_joined"
    unfolding team_joined_def by (rule team_reachable.t_responded)
qed

lemma team_raced_invitations:
  "invitations team_raced =
     [\<lparr>inv_id = 1, inv_teamId = 1, inv_userId = 3, invitedBy = 10, inv_role = ''member'',
       inv_status = pending, inv_message = None, respondedAt = None\<rparr>,
      \<lparr>inv_id = 2, inv_teamId = 1, inv_userId = 3, invitedBy = 10, inv_role = ''member'',
       inv_status = pending, inv_message = None, respondedAt = None\<rparr>]"
  by (simp add: team_raced_def invitationWrites_def invite_bob_def team_start_def eve_def
        purgeResolved_def orMember_def Let_def)

lemma eve_reads_start:
  "invitationChecks eve invite_bob team_start = Inr \<lparr>team_id = 1, managerId = 10\<rparr>"
  by (simp add: invitationChecks_def resolveTeam_def orNull_def invite_bob_def team_start_def
        eve_def alice_def bob_def isMember_def hasPending_def)

theorem invitation_single_pending_witness:
  "team_reachable team_invited
   \<and> singlePending team_invited
   \<and> hasPending 1 3 team_invited
   \<and> fst (sendInvitation eve invite_bob team_invited) = reply 400 AlreadyPending
   \<and> snd (sendInvitation eve invite_bob team_invited) = team_invited
   \<and> map inv_status (invitations team_declined) = [declined]
   \<and> status (fst (sendInvitation eve invite_bob team_declined)) = 201
   \<and> filter (\<lambda>i. inv_teamId i = 1 \<and> inv_userId i = 3)
        (invitations (snd (sendInvitation eve invite_bob team_declined)))
       = [\<lparr>inv_id = 2, inv_teamId = 1, inv_userId = 3, invitedBy = 10, inv_role = ''member'',
            inv_status = pending, inv_message = None, respondedAt = None\<rparr>]
   \<and> isMember 1 3 team_joined
   \<and> sendInvitation eve invite_bob team_joined = (reply 400 AlreadyMember, team_joined)
   \<and> invitationChecks eve invite_bob team_start = Inr \<lparr>team_id = 1, managerId = 10\<rparr>
   \<and> length (pendingFor 1 3 (invitations team_raced)) = 2"
proof -
  let ?tm = "\<lparr>team_id = 1, managerId = 10\<rparr>"
  from invitation_single_pending [of team_start eve invite_bob ?tm] eve_reads_start
  have "length (pendingFor (team_id ?tm) (targetUserId invite_bob)
                (invitations (snd (invitationWrites eve invite_bob ?tm
                                     (snd (invitationWrites eve invite_bob ?tm team_start)))))) = 2"
    by blast
  then have race: "length (pendingFor 1 3 (invitations team_raced)) = 2"
    by (simp add: team_raced_def invite_bob_fields)
  have pend: "hasPending 1 3 team_invited" by (simp add: hasPending_def team_invited_tables)
  have nomem: "\<not> isMember 1 3 team_invited" by (simp add: isMember_def team_invited_tables)
  note T1 = invitation_single_pending [of team_invited eve invite_bob ?tm]
  have s: "singlePending team_invited" using T1 team_scenario_reachable(1) by blast
  have "resolveTeam (uid eve) (rq_teamId invite_bob) team_invited = Inr ?tm
        \<and> hasPending (team_id ?tm) (targetUserId invite_bob) team_invited"
    using pend by (simp add: eve_team invite_bob_fields)
  moreover have "find (\<lambda>x. uid x = targetUserId invite_bob) (team_users team_invited) = Some bob
               \<and> role bob = ''consultant''
               \<and> \<not> isMember (team_id ?tm) (targetUserId invite_bob) team_invited"
    using nomem by (simp add: bob_found team_invited_tables invite_bob_fields)
  ultimately have p: "fst (sendInvitation eve invite_bob team_invited) = reply 400 AlreadyPending
                      \<and> snd (sendInvitation eve invite_bob team_invited) = team_invited"
    using T1 by blast
  note T2 = invitation_single_pending [of team_declined eve invite_bob ?tm]
  have "resolveTeam (uid eve) (rq_teamId invite_bob) team_declined = Inr ?tm
            \<and> find (\<lambda>x. uid x = targetUserId invite_bob) (team_users team_declined) = Some bob
            \<and> role bob = ''consultant''
            \<and> \<not> isMember (team_id ?tm) (targetUserId invite_bob) team_declined
            \<and> \<not> hasPending (team_id ?tm) (targetUserId invite_bob) team_declined"
    by (simp add: eve_team bob_found team_declined_tables isMember_def hasPending_def
          invite_bob_fields)
  with T2 have "status (fst (sendInvitation eve invite_bob team_declined)) = 201
      \<and> filter (\<lambda>i. inv_teamId i = team_id ?tm \<and> inv_userId i = targetUserId invite_bob)
           (invitations (snd (sendInvitation eve invite_bob team_declined)))
          = [\<lparr>inv_id = nextInvitationId team_declined, inv_teamId = team_id ?tm,
               inv_userId = targetUserId invite_bob, invitedBy = uid eve,
               inv_role = orMember (rq_role invite_bob), inv_status = pending,
               inv_message = rq_message invite_bob, respondedAt = None\<rparr>]"
    by blast
  then have r: "status (fst (sendInvitation eve invite_bob team_declined)) = 201
      \<and> filter (\<lambda>i. inv_teamId i = 1 \<and> inv_userId i = 3)
           (invitations (snd (sendInvitation eve invite_bob team_declined)))
       = [\<lparr>inv_id = 2, inv_teamId = 1, inv_userId = 3, invitedBy = 10, inv_role = ''member'',
            inv_status = pending, inv_message = None, respondedAt = None\<rparr>]"
    by (simp add: team_declined_tables invite_bob_fields orMember_def)
  note T3 = invitation_single_pending [of team_joined eve invite_bob ?tm]
  have mem: "isMember 1 3 team_joined" by (simp add: isMember_def team_joined_tables)
  then have "resolveTeam (uid eve) (rq_teamId invite_bob) team_joined = Inr ?tm
            \<and> find (\<lambda>x. uid x = targetUserId invite_bob) (team_users team_joined) = Some bob
            \<and> role bob = ''consultant''
            \<and> isMember (team_id ?tm) (targetUserId invite_bob) team_joined"
    by (simp add: eve_team bob_found team_joined_tables invite_bob_fields)
  with T3 have m: "sendInvitation eve invite_bob team_joined = (reply 400 AlreadyMember, team_joined)"
    by blast
  have d: "map inv_status (invitations team_declined) = [declined]"
    by (simp add: team_declined_tables)
  from team_scenario_reachable(1) s pend p d r mem m eve_reads_start race show ?thesis
    by (intro conjI) simp_all
qed

text \<open>
  As the specification words it, the property fails in two ways. First, after an accepted
  invitation: Eve invites Bob, Bob accepts and is a member of the team; Eve's next invite of
  Bob is refused with the 400 for a member, and nothing is created (and the second invite
  while the first is pending is answered with status 400, where the API keeps 409 for
  conflicts). Second, at most one pending invitation holds only of requests handled one
  at a time: when two invites of Bob overlap, each handler finds no pending invitation in
  its reads, and after the writes of both the pair has two pending invitations.
\<close>

theorem invitation_after_accept_counterexample:
  "status (fst (sendInvitation eve invite_bob team_start)) = 201
   \<and> fst (respondToInvitation bob 50 1 ''accepted'' team_invited)
       = \<lparr>status = 200, success = True, message = JoinedTeam,
          data = OneInvitation (Some
            \<lparr>inv_id = 1, inv_teamId = 1, inv_userId = 3, invitedBy = 10, inv_role = ''member'',
             inv_status = accepted, inv_message = None, respondedAt = Some 50\<rparr>)\<rparr>
   \<and> map inv_status (invitations team_joined) = [accepted]
   \<and> fst (sendInvitation eve invite_bob team_joined) = reply 400 AlreadyMember
   \<and> invitations (snd (sendInvitation eve invite_bob team_joined)) = invitations team_joined
   \<and> status (fst (sendInvitation eve invite_bob team_invited)) = 400
   \<and> invitationChecks eve invite_bob team_start = Inr \<lparr>team_id = 1, managerId = 10\<rparr>
   \<and> map inv_teamId (invitations team_raced) = [1, 1]
   \<and> map inv_userId (invitations team_raced) = [3, 3]
   \<and> map inv_status (invitations team_raced) = [pending, pending]
   \<and> length (pendingFor 1 3 (invitations team_raced)) = 2
   \<and> \<not> singlePending team_raced"
proof -
  have a: "status (fst (sendInvitation eve invite_bob team_start)) = 201"
    by (simp add: sendInvitation_def eve_reads_start invitationWrites_def Let_def)
  have b: "fst (respondToInvitation bob 50 1 ''accepted'' team_invited)
       = \<lparr>status = 200, success = True, message = JoinedTeam,
          data = OneInvitation (Some
            \<lparr>inv_id = 1, inv_teamId = 1, inv_userId = 3, invitedBy = 10, inv_role = ''member'',
             inv_status = accepted, inv_message = None, respondedAt = Some 50\<rparr>)\<rparr>"
    by (simp add: respondToInvitation_def team_invited_tables bob_def setStatus_def isMember_def
          Let_def)
  have c: "fst (sendInvitation eve invite_bob team_joined) = reply 400 AlreadyMember
           \<and> invitations (snd (sendInvitation eve invite_bob team_joined)) = invitations team_joined"
    by (simp add: sendInvitation_def invitationChecks_def eve_team bob_found team_joined_tables
          isMember_def invite_bob_fields)
  have e: "status (fst (sendInvitation eve invite_bob team_invited)) = 400"
    by (simp add: sendInvitation_def invitationChecks_def eve_team bob_found team_invited_tables
          isMember_def hasPending_def invite_bob_fields reply_def)
  have two: "length (pendingFor 1 3 (invitations team_raced)) = 2"
    by (simp add: team_raced_invitations pendingFor_def)
  have "\<not> length (pendingFor 1 3 (invitations team_raced)) \<le> 1" using two by simp
  then have r: "\<not> singlePending team_raced" unfolding singlePending_def by blast
  from a b c e eve_reads_start two r show ?thesis
    by (simp add: team_joined_tables team_raced_invitations)
qed

end
